theory Spec2Isabelle
  imports Main "HOL-Library.AList"
begin

section \<open>Keyborg: the keyboard-navigation state of src/Keyborg.ts\<close>

text \<open>
  The module keeps three kinds of mutable objects: the \<open>KeyborgState\<close> singleton
  \<open>_state\<close>, one \<open>KeyborgCore\<close> per window and any number of \<open>Keyborg\<close> handles.
  They are embedded as records in an explicit store (\<open>World\<close>). An object reference is
  an address; the address of a core or of a handle is the value the module counter
  \<open>_lastId\<close> receives in its constructor, which is different for every object.

  A JavaScript object used as a dictionary with string keys (\<open>__keyborgCoreRefs\<close>,
  \<open>refs\<close>) is an association list in insertion order: \<open>id in obj\<close> and \<open>obj[id]\<close> are
  \<open>map_of\<close>, an assignment is \<open>AList.update\<close> (in place, or appended), \<open>delete\<close> is
  \<open>AList.delete\<close> and \<open>Object.keys\<close> is \<open>map fst\<close>.

  Subscriber callbacks are opaque: a callback is an identity, calling it is recorded as
  an effect, and what its body does to the store is outside the model. Reading a property
  of \<open>undefined\<close> is the error \<open>TypeError\<close>.
\<close>

subsection \<open>Data\<close>

type_synonym addr = nat
type_synonym window = nat
type_synonym element = nat
type_synonym KeyborgCallback = nat

datatype error = TypeError

datatype effect =
    CoreUpdate addr bool
  | Callback KeyborgCallback bool
  | ConsoleError string

record KeyborgProps =
  triggerKeys :: "int list option"
  dismissKeys :: "int list option"

record KeyborgState =
  keyborgCoreRefs :: "(string \<times> addr) list"
  isNavigatingWithKeyboard :: bool

record KeyborgCore =
  core_id :: string
  core_win :: "window option"
  isMouseUsedTimer :: "nat option"
  dismissTimer :: "nat option"
  core_triggerKeys :: "int set option"
  core_dismissKeys :: "int set option"

record Keyborg =
  kb_id :: string
  kb_win :: "window option"
  kb_core :: "addr option"
  kb_cb :: "KeyborgCallback list"

text \<open>The value of \<open>win.__keyborg\<close>.\<close>

record WindowKeyborg =
  core :: addr
  refs :: "(string \<times> addr) list"

text \<open>
  The closures handed to \<open>setTimeout\<close>: the one of \<open>_onMouseDown\<close> captures \<open>this\<close>, the
  one of \<open>_scheduleDismiss\<close> captures \<open>this\<close>, \<open>win\<close> and \<open>was\<close>.
\<close>

datatype TimerCallback =
    MouseUsedTimeout addr
  | DismissTimeout addr window "element option"

text \<open>
  What the module uses of a browser window: the \<open>__keyborg\<close> property,
  \<open>document.activeElement\<close>, the capture listeners on the document and on the window
  (event type and the core whose bound handler it is), the pending timeouts (handle,
  time due, callback), the last timeout handle given out, and whether the focus event of
  FocusEvent.ts is set up.
\<close>

record Window =
  keyborg :: "WindowKeyborg option"
  activeElement :: "element option"
  docListeners :: "(string \<times> addr) list"
  winListeners :: "(string \<times> addr) list"
  timers :: "(nat \<times> nat \<times> TimerCallback) list"
  lastTimer :: nat
  focusEvent :: bool

record World =
  lastId :: nat
  state :: KeyborgState
  cores :: "(addr \<times> KeyborgCore) list"
  keyborgs :: "(addr \<times> Keyborg) list"
  windows :: "(window \<times> Window) list"
  now :: nat

record MouseEvent =
  buttons :: int
  clientX :: int
  clientY :: int
  screenX :: int
  screenY :: int

record KeyboardEvent =
  keyCode :: int

record KeyborgFocusInEventDetails =
  relatedTarget :: "element option"
  isFocusedProgrammatically :: "bool option"

record KeyborgFocusInEvent =
  details :: KeyborgFocusInEventDetails

definition dismissTimeout :: nat where
  "dismissTimeout = 500"

definition KEYBORG_FOCUSIN :: string where
  "KEYBORG_FOCUSIN = ''keyborg:focusin''"

definition newWindow :: Window where
  "newWindow = \<lparr>keyborg = None, activeElement = None, docListeners = [], winListeners = [],
     timers = [], lastTimer = 0, focusEvent = False\<rparr>"

definition initWorld :: World where
  "initWorld = \<lparr>lastId = 0,
     state = \<lparr>keyborgCoreRefs = [], isNavigatingWithKeyboard = False\<rparr>,
     cores = [], keyborgs = [], windows = [], now = 0\<rparr>"

subsection \<open>The store and the browser\<close>

text \<open>A window that the module has not touched yet is in its initial condition.\<close>

definition getWin :: "World \<Rightarrow> window \<Rightarrow> Window" where
  "getWin w win = (case map_of (windows w) win of None \<Rightarrow> newWindow | Some x \<Rightarrow> x)"

definition putWin :: "window \<Rightarrow> Window \<Rightarrow> World \<Rightarrow> World" where
  "putWin win x w = w\<lparr>windows := AList.update win x (windows w)\<rparr>"

definition modCore :: "addr \<Rightarrow> (KeyborgCore \<Rightarrow> KeyborgCore) \<Rightarrow> World \<Rightarrow> World" where
  "modCore a f w =
     (case map_of (cores w) a of
        None \<Rightarrow> w
      | Some c \<Rightarrow> w\<lparr>cores := AList.update a (f c) (cores w)\<rparr>)"

definition modKeyborg :: "addr \<Rightarrow> (Keyborg \<Rightarrow> Keyborg) \<Rightarrow> World \<Rightarrow> World" where
  "modKeyborg a f w =
     (case map_of (keyborgs w) a of
        None \<Rightarrow> w
      | Some h \<Rightarrow> w\<lparr>keyborgs := AList.update a (f h) (keyborgs w)\<rparr>)"

text \<open>
  \<open>setTimeout\<close> returns a handle greater than zero and different from the earlier ones of
  the window; its callback may run once the delay has passed. \<open>clearTimeout\<close> drops the
  pending timeout of that handle.
\<close>

definition setTimeout :: "window \<Rightarrow> TimerCallback \<Rightarrow> nat \<Rightarrow> World \<Rightarrow> nat \<times> World" where
  "setTimeout win f delay w =
     (let x = getWin w win; h = lastTimer x + 1
      in (h, putWin win (x\<lparr>lastTimer := h, timers := timers x @ [(h, now w + delay, f)]\<rparr>) w))"

definition clearTimeout :: "window \<Rightarrow> nat \<Rightarrow> World \<Rightarrow> World" where
  "clearTimeout win h w =
     (let x = getWin w win in putWin win (x\<lparr>timers := AList.delete h (timers x)\<rparr>) w)"

text \<open>
  \<open>addEventListener\<close> ignores a listener that is already registered for the type;
  \<open>removeEventListener\<close> removes it.
\<close>

definition addEventListener :: "string \<Rightarrow> addr \<Rightarrow> (string \<times> addr) list \<Rightarrow> (string \<times> addr) list" where
  "addEventListener t a ls = (if (t, a) \<in> set ls then ls else ls @ [(t, a)])"

definition removeEventListener :: "string \<Rightarrow> addr \<Rightarrow> (string \<times> addr) list \<Rightarrow> (string \<times> addr) list" where
  "removeEventListener t a ls = removeAll (t, a) ls"

text \<open>
  Modelled from the spec: \<open>setupFocusEvent\<close> and \<open>disposeFocusEvent\<close> of FocusEvent.ts,
  which is not among the sources. The shim is installed once per window (repeated setup
  is a no-op) and removed when no longer needed.
\<close>

definition setupFocusEvent :: "window \<Rightarrow> World \<Rightarrow> World" where
  "setupFocusEvent win w = putWin win ((getWin w win)\<lparr>focusEvent := True\<rparr>) w"

definition disposeFocusEvent :: "window \<Rightarrow> World \<Rightarrow> World" where
  "disposeFocusEvent win w = putWin win ((getWin w win)\<lparr>focusEvent := False\<rparr>) w"

text \<open>
  Modelled from the spec: \<open>WeakRefInstance.deref\<close> of WeakRefInstance.ts, which is not
  among the sources. A weak reference holds the address of a core and yields the core as
  long as the core is in the store; once the core has been collected (\<open>discardWindow\<close>
  below) it yields \<open>undefined\<close>.
\<close>

definition deref :: "World \<Rightarrow> addr \<Rightarrow> KeyborgCore option" where
  "deref w r = map_of (cores w) r"

text \<open>
  Truthiness of a timer field (\<open>number | undefined\<close>): a number other than zero.
\<close>

definition timerSet :: "nat option \<Rightarrow> bool" where
  "timerSet t = (case t of None \<Rightarrow> False | Some h \<Rightarrow> h \<noteq> 0)"

text \<open>
  The decimal string of a counter value, as \<open>"c" + n\<close> produces it. The counter is a
  natural number; the JavaScript number agrees with it below \<open>2^53\<close>.
\<close>

fun string_of_nat :: "nat \<Rightarrow> string" where
  "string_of_nat n =
     (if n < 10 then [''0123456789'' ! n]
      else string_of_nat (n div 10) @ [''0123456789'' ! (n mod 10)])"

declare string_of_nat.simps [simp del]

subsection \<open>class KeyborgState\<close>

definition KeyborgState_add :: "addr \<Rightarrow> KeyborgCore \<Rightarrow> KeyborgState \<Rightarrow> KeyborgState" where
  "KeyborgState_add a kc s =
     (let i = core_id kc
      in if map_of (keyborgCoreRefs s) i = None
         then s\<lparr>keyborgCoreRefs := AList.update i a (keyborgCoreRefs s)\<rparr>
         else s)"

definition KeyborgState_remove :: "string \<Rightarrow> KeyborgState \<Rightarrow> KeyborgState" where
  "KeyborgState_remove i s =
     (let s1 = s\<lparr>keyborgCoreRefs := AList.delete i (keyborgCoreRefs s)\<rparr>
      in if length (map fst (keyborgCoreRefs s1)) = 0
         then s1\<lparr>isNavigatingWithKeyboard := False\<rparr>
         else s1)"

definition KeyborgState_getVal :: "KeyborgState \<Rightarrow> bool" where
  "KeyborgState_getVal s = isNavigatingWithKeyboard s"

text \<open>\<open>Keyborg.update\<close>: every callback of the handle, in order.\<close>

definition Keyborg_update :: "Keyborg \<Rightarrow> bool \<Rightarrow> effect list" where
  "Keyborg_update instance v = map (\<lambda>f. Callback f v) (kb_cb instance)"

text \<open>
  \<open>KeyborgCore.update\<close>: the loop over \<open>Object.keys(keyborgs)\<close>. \<open>keyborgs[id]\<close> of a missing
  key is \<open>undefined\<close>, whose \<open>_cb\<close> cannot be read.
\<close>

fun update_loop :: "string list \<Rightarrow> (string \<times> addr) list \<Rightarrow> bool \<Rightarrow> World \<Rightarrow> error + effect list" where
  "update_loop [] ks v w = Inr []"
| "update_loop (i # ids) ks v w =
     (case map_of ks i of
        None \<Rightarrow> Inl TypeError
      | Some ha \<Rightarrow>
          (case update_loop ids ks v w of
             Inl e \<Rightarrow> Inl e
           | Inr effs \<Rightarrow>
               Inr ((case map_of (keyborgs w) ha of
                       None \<Rightarrow> []
                     | Some instance \<Rightarrow> Keyborg_update instance v) @ effs)))"

definition KeyborgCore_update :: "KeyborgCore \<Rightarrow> bool \<Rightarrow> World \<Rightarrow> error + effect list" where
  "KeyborgCore_update kc v w =
     (case core_win kc of
        None \<Rightarrow> Inr []
      | Some win \<Rightarrow>
          (case keyborg (getWin w win) of
             None \<Rightarrow> Inr []
           | Some current \<Rightarrow> update_loop (map fst (refs current)) (refs current) v w))"

text \<open>
  \<open>KeyborgState.setVal\<close>: the loop runs over the keys the registry had when it started and
  reads the registry as it is at each iteration.
\<close>

fun setVal_loop :: "string list \<Rightarrow> bool \<Rightarrow> World \<Rightarrow> error + World \<times> effect list" where
  "setVal_loop [] v w = Inr (w, [])"
| "setVal_loop (i # ids) v w =
     (case map_of (keyborgCoreRefs (state w)) i of
        None \<Rightarrow> Inl TypeError
      | Some r \<Rightarrow>
          (case deref w r of
             Some kc \<Rightarrow>
               (case KeyborgCore_update kc v w of
                  Inl e \<Rightarrow> Inl e
                | Inr effs \<Rightarrow>
                    (case setVal_loop ids v w of
                       Inl e \<Rightarrow> Inl e
                     | Inr (w', effs') \<Rightarrow> Inr (w', CoreUpdate r v # effs @ effs')))
           | None \<Rightarrow> setVal_loop ids v (w\<lparr>state := KeyborgState_remove i (state w)\<rparr>)))"

definition KeyborgState_setVal :: "bool \<Rightarrow> World \<Rightarrow> error + World \<times> effect list" where
  "KeyborgState_setVal v w =
     (if isNavigatingWithKeyboard (state w) = v then Inr (w, [])
      else
        (let w1 = w\<lparr>state := (state w)\<lparr>isNavigatingWithKeyboard := v\<rparr>\<rparr>
         in setVal_loop (map fst (keyborgCoreRefs (state w1))) v w1))"

subsection \<open>class KeyborgCore\<close>

text \<open>\<open>new Set(keys)\<close> when \<open>keys?.length\<close> is truthy, otherwise the field stays unset.\<close>

definition keySet :: "int list option \<Rightarrow> int set option" where
  "keySet ks = (case ks of None \<Rightarrow> None | Some l \<Rightarrow> if length l \<noteq> 0 then Some (set l) else None)"

definition new_KeyborgCore :: "window \<Rightarrow> KeyborgProps option \<Rightarrow> World \<Rightarrow> addr \<times> World" where
  "new_KeyborgCore win props w =
     (let n = lastId w + 1;
          kc = \<lparr>core_id = ''c'' @ string_of_nat n, core_win = Some win,
                isMouseUsedTimer = None, dismissTimer = None,
                core_triggerKeys = (case props of None \<Rightarrow> None | Some p \<Rightarrow> keySet (triggerKeys p)),
                core_dismissKeys = (case props of None \<Rightarrow> None | Some p \<Rightarrow> keySet (dismissKeys p))\<rparr>;
          w1 = w\<lparr>lastId := n, cores := AList.update n kc (cores w)\<rparr>;
          x = getWin w1 win;
          w2 = putWin win
                 (x\<lparr>docListeners :=
                       addEventListener ''mousedown'' n
                         (addEventListener KEYBORG_FOCUSIN n (docListeners x)),
                     winListeners := addEventListener ''keydown'' n (winListeners x)\<rparr>) w1;
          w3 = setupFocusEvent win w2
      in (n, w3\<lparr>state := KeyborgState_add n kc (state w3)\<rparr>))"

definition KeyborgCore_dispose :: "addr \<Rightarrow> World \<Rightarrow> World" where
  "KeyborgCore_dispose a w =
     (case map_of (cores w) a of
        None \<Rightarrow> w
      | Some kc \<Rightarrow>
          (case core_win kc of
             None \<Rightarrow> w
           | Some win \<Rightarrow>
               (let w1 = (case isMouseUsedTimer kc of
                            None \<Rightarrow> w
                          | Some h \<Rightarrow>
                              if h \<noteq> 0
                              then modCore a (\<lambda>c. c\<lparr>isMouseUsedTimer := None\<rparr>) (clearTimeout win h w)
                              else w);
                    w2 = (case dismissTimer kc of
                            None \<Rightarrow> w1
                          | Some h \<Rightarrow>
                              if h \<noteq> 0
                              then modCore a (\<lambda>c. c\<lparr>dismissTimer := None\<rparr>) (clearTimeout win h w1)
                              else w1);
                    w3 = disposeFocusEvent win w2;
                    x = getWin w3 win;
                    w4 = putWin win
                           (x\<lparr>docListeners :=
                                 removeEventListener ''mousedown'' a
                                   (removeEventListener KEYBORG_FOCUSIN a (docListeners x)),
                               winListeners := removeEventListener ''keydown'' a (winListeners x)\<rparr>) w3;
                    w5 = modCore a (\<lambda>c. c\<lparr>core_win := None\<rparr>) w4
                in w5\<lparr>state := KeyborgState_remove (core_id kc) (state w5)\<rparr>)))"

definition KeyborgCore_isDisposed :: "KeyborgCore \<Rightarrow> bool" where
  "KeyborgCore_isDisposed kc = (core_win kc \<noteq> None)"

text \<open>
  The event handlers are bound to their core; \<open>a\<close> is its address. An address that holds
  no object cannot be the \<open>this\<close> of a call, and the model leaves the store as it is.
\<close>

definition KeyborgCore_onFocusIn ::
  "addr \<Rightarrow> KeyborgFocusInEvent \<Rightarrow> World \<Rightarrow> error + World \<times> effect list" where
  "KeyborgCore_onFocusIn a e w =
     (case map_of (cores w) a of
        None \<Rightarrow> Inr (w, [])
      | Some kc \<Rightarrow>
          if timerSet (isMouseUsedTimer kc) then Inr (w, [])
          else if KeyborgState_getVal (state w) then Inr (w, [])
          else if relatedTarget (details e) = None then Inr (w, [])
          else if isFocusedProgrammatically (details e) = Some True
                  \<or> isFocusedProgrammatically (details e) = None then Inr (w, [])
          else KeyborgState_setVal True w)"

definition KeyborgCore_onMouseDown ::
  "addr \<Rightarrow> MouseEvent \<Rightarrow> World \<Rightarrow> error + World \<times> effect list" where
  "KeyborgCore_onMouseDown a e w =
     (case map_of (cores w) a of
        None \<Rightarrow> Inr (w, [])
      | Some kc \<Rightarrow>
          if buttons e = 0
             \<or> (clientX e = 0 \<and> clientY e = 0 \<and> screenX e = 0 \<and> screenY e = 0)
          then Inr (w, [])
          else
            (let w3 = (case core_win kc of
                         None \<Rightarrow> w
                       | Some win \<Rightarrow>
                           (let w1 = (case isMouseUsedTimer kc of
                                        None \<Rightarrow> w
                                      | Some h \<Rightarrow> if h \<noteq> 0 then clearTimeout win h w else w);
                                (h', w2) = setTimeout win (MouseUsedTimeout a) 1000 w1
                            in modCore a (\<lambda>c. c\<lparr>isMouseUsedTimer := Some h'\<rparr>) w2))
             in KeyborgState_setVal False w3))"

definition KeyborgCore_scheduleDismiss :: "addr \<Rightarrow> World \<Rightarrow> World" where
  "KeyborgCore_scheduleDismiss a w =
     (case map_of (cores w) a of
        None \<Rightarrow> w
      | Some kc \<Rightarrow>
          (case core_win kc of
             None \<Rightarrow> w
           | Some win \<Rightarrow>
               (let w1 = (case dismissTimer kc of
                            None \<Rightarrow> w
                          | Some h \<Rightarrow>
                              if h \<noteq> 0
                              then modCore a (\<lambda>c. c\<lparr>dismissTimer := None\<rparr>) (clearTimeout win h w)
                              else w);
                    was = activeElement (getWin w1 win);
                    (h', w2) = setTimeout win (DismissTimeout a win was) dismissTimeout w1
                in modCore a (\<lambda>c. c\<lparr>dismissTimer := Some h'\<rparr>) w2)))"

definition KeyborgCore_onKeyDown ::
  "addr \<Rightarrow> KeyboardEvent \<Rightarrow> World \<Rightarrow> error + World \<times> effect list" where
  "KeyborgCore_onKeyDown a e w =
     (case map_of (cores w) a of
        None \<Rightarrow> Inr (w, [])
      | Some kc \<Rightarrow>
          (let nav = KeyborgState_getVal (state w)
           in if \<not> nav \<and> (case core_triggerKeys kc of None \<Rightarrow> True | Some ks \<Rightarrow> keyCode e \<in> ks)
              then KeyborgState_setVal True w
              else if nav \<and> (case core_dismissKeys kc of None \<Rightarrow> False | Some ks \<Rightarrow> keyCode e \<in> ks)
              then Inr (KeyborgCore_scheduleDismiss a w, [])
              else Inr (w, [])))"

text \<open>The bodies of the two timeout callbacks.\<close>

fun runTimer :: "TimerCallback \<Rightarrow> World \<Rightarrow> error + World \<times> effect list" where
  "runTimer (MouseUsedTimeout a) w = Inr (modCore a (\<lambda>c. c\<lparr>isMouseUsedTimer := None\<rparr>) w, [])"
| "runTimer (DismissTimeout a win was) w =
     (let w1 = modCore a (\<lambda>c. c\<lparr>dismissTimer := None\<rparr>) w;
          cur = activeElement (getWin w1 win)
      in if was \<noteq> None \<and> cur \<noteq> None \<and> was = cur
         then KeyborgState_setVal False w1
         else Inr (w1, []))"

text \<open>
  The browser runs the callback of a pending timeout at most once and not before it is
  due; a handle that is not pending (never set, cleared or already run) does nothing.
\<close>

definition fireTimer :: "window \<Rightarrow> nat \<Rightarrow> World \<Rightarrow> error + World \<times> effect list" where
  "fireTimer win h w =
     (case map_of (timers (getWin w win)) h of
        None \<Rightarrow> Inr (w, [])
      | Some (due, f) \<Rightarrow>
          if now w < due then Inr (w, [])
          else runTimer f (clearTimeout win h w))"

subsection \<open>class Keyborg\<close>

definition new_Keyborg :: "window \<Rightarrow> KeyborgProps option \<Rightarrow> World \<Rightarrow> addr \<times> World" where
  "new_Keyborg win props w =
     (let n = lastId w + 1;
          i = ''k'' @ string_of_nat n;
          w1 = w\<lparr>lastId := n\<rparr>
      in case keyborg (getWin w1 win) of
           Some current \<Rightarrow>
             (let instance = \<lparr>kb_id = i, kb_win = Some win, kb_core = Some (core current), kb_cb = []\<rparr>;
                  w2 = w1\<lparr>keyborgs := AList.update n instance (keyborgs w1)\<rparr>
              in (n, putWin win
                       ((getWin w2 win)\<lparr>keyborg := Some (current\<lparr>refs := AList.update i n (refs current)\<rparr>)\<rparr>)
                       w2))
         | None \<Rightarrow>
             (let (ca, w2) = new_KeyborgCore win props w1;
                  instance = \<lparr>kb_id = i, kb_win = Some win, kb_core = Some ca, kb_cb = []\<rparr>;
                  w3 = w2\<lparr>keyborgs := AList.update n instance (keyborgs w2)\<rparr>
              in (n, putWin win
                       ((getWin w3 win)\<lparr>keyborg := Some \<lparr>core = ca, refs = [(i, n)]\<rparr>\<rparr>)
                       w3)))"

text \<open>
  The exported \<open>createKeyborg\<close> calls the static \<open>Keyborg.create\<close>, which calls the
  constructor. It returns the new handle and the new store.
\<close>

definition createKeyborg :: "window \<Rightarrow> KeyborgProps option \<Rightarrow> World \<Rightarrow> addr \<times> World" where
  "createKeyborg win props w = new_Keyborg win props w"

text \<open>
  \<open>Keyborg.dispose\<close>. \<open>dev\<close> is the build flag \<open>__DEV__\<close>. \<open>current\<close> is the object
  \<open>this._win.__keyborg\<close>, carried with the window it belongs to; \<open>this._win!\<close> of a handle
  without a window would be a read of a property of \<open>undefined\<close>.
\<close>

definition disposedIncorrectly :: "bool \<Rightarrow> Keyborg \<Rightarrow> effect list" where
  "disposedIncorrectly dev this =
     (if dev
      then [ConsoleError (''Keyborg instance '' @ kb_id this @ '' is being disposed incorrectly.'')]
      else [])"

definition Keyborg_dispose :: "bool \<Rightarrow> addr \<Rightarrow> World \<Rightarrow> error + World \<times> effect list" where
  "Keyborg_dispose dev a w =
     (case map_of (keyborgs w) a of
        None \<Rightarrow> Inr (w, [])
      | Some this \<Rightarrow>
          (let current = (case kb_win this of
                            None \<Rightarrow> None
                          | Some win \<Rightarrow> map_option (Pair win) (keyborg (getWin w win)));
               r = (case current of
                      None \<Rightarrow> Inr (w, disposedIncorrectly dev this)
                    | Some (win, k) \<Rightarrow>
                        if map_of (refs k) (kb_id this) \<noteq> None
                        then
                          (let refs' = AList.delete (kb_id this) (refs k);
                               w1 = putWin win ((getWin w win)\<lparr>keyborg := Some (k\<lparr>refs := refs'\<rparr>)\<rparr>) w
                           in if length (map fst refs') = 0
                              then
                                (let w2 = KeyborgCore_dispose (core k) w1
                                 in case kb_win this of
                                      None \<Rightarrow> Inl TypeError
                                    | Some win' \<Rightarrow>
                                        Inr (putWin win' ((getWin w2 win')\<lparr>keyborg := None\<rparr>) w2, []))
                              else Inr (w1, []))
                        else Inr (w, disposedIncorrectly dev this))
           in case r of
                Inl e \<Rightarrow> Inl e
              | Inr (w', effs) \<Rightarrow>
                  Inr (modKeyborg a (\<lambda>h. h\<lparr>kb_cb := [], kb_core := None, kb_win := None\<rparr>) w', effs)))"

text \<open>
  The exported \<open>disposeKeyborg\<close> calls the static \<open>Keyborg.dispose\<close>, which calls the
  method \<open>dispose\<close> of the handle.
\<close>

definition disposeKeyborg :: "bool \<Rightarrow> addr \<Rightarrow> World \<Rightarrow> error + World \<times> effect list" where
  "disposeKeyborg dev a w = Keyborg_dispose dev a w"

definition Keyborg_isNavigatingWithKeyboard :: "addr \<Rightarrow> World \<Rightarrow> bool" where
  "Keyborg_isNavigatingWithKeyboard a w = KeyborgState_getVal (state w)"

definition Keyborg_subscribe :: "addr \<Rightarrow> KeyborgCallback \<Rightarrow> World \<Rightarrow> World" where
  "Keyborg_subscribe a f w = modKeyborg a (\<lambda>h. h\<lparr>kb_cb := kb_cb h @ [f]\<rparr>) w"

text \<open>\<open>Array.indexOf\<close> (the first index, or -1) and \<open>splice(index, 1)\<close>.\<close>

fun indexOf :: "'a list \<Rightarrow> 'a \<Rightarrow> int" where
  "indexOf [] x = - 1"
| "indexOf (y # ys) x =
     (if y = x then 0 else (let i = indexOf ys x in if i < 0 then - 1 else i + 1))"

definition splice1 :: "int \<Rightarrow> 'a list \<Rightarrow> 'a list" where
  "splice1 i xs = take (nat i) xs @ drop (nat i + 1) xs"

definition unsubscribe_cb :: "KeyborgCallback \<Rightarrow> KeyborgCallback list \<Rightarrow> KeyborgCallback list" where
  "unsubscribe_cb f fs = (let index = indexOf fs f in if index \<ge> 0 then splice1 index fs else fs)"

definition Keyborg_unsubscribe :: "addr \<Rightarrow> KeyborgCallback \<Rightarrow> World \<Rightarrow> World" where
  "Keyborg_unsubscribe a f w = modKeyborg a (\<lambda>h. h\<lparr>kb_cb := unsubscribe_cb f (kb_cb h)\<rparr>) w"

definition Keyborg_setVal :: "addr \<Rightarrow> bool \<Rightarrow> World \<Rightarrow> error + World \<times> effect list" where
  "Keyborg_setVal a v w = KeyborgState_setVal v w"

subsection \<open>Runs of the module\<close>

text \<open>
  The browser discards a window (an inner frame is removed, say) of which the page holds no
  handle any more: the window object, the cores and the handles that hold it are collected.
  The state singleton holds its cores weakly and keeps its entry, whose \<open>deref\<close> is
  \<open>undefined\<close> from then on. The address may later name a new window.
\<close>

definition discardWindow :: "window \<Rightarrow> World \<Rightarrow> World" where
  "discardWindow win w =
     w\<lparr>windows := AList.delete win (windows w),
       cores := AList.restrict
                  (- {a. \<exists>c. map_of (cores w) a = Some c \<and> core_win c = Some win}) (cores w),
       keyborgs := AList.restrict
                  (- {a. \<exists>h. map_of (keyborgs w) a = Some h \<and> kb_win h = Some win}) (keyborgs w)\<rparr>"

text \<open>
  What a page and its browser can do with the module, one step at a time: the exported
  functions and the methods of a handle, an event delivered to a registered listener, a
  timeout the browser runs, a change of the focused element, the passing of time, and the
  collection of a window.
\<close>

inductive reachable :: "World \<Rightarrow> bool" where
  init: "reachable initWorld"
| create: "reachable w \<Longrightarrow> createKeyborg win props w = (a, w') \<Longrightarrow> reachable w'"
| dispose: "reachable w \<Longrightarrow> disposeKeyborg dev a w = Inr (w', effs) \<Longrightarrow> reachable w'"
| subscribe: "reachable w \<Longrightarrow> reachable (Keyborg_subscribe a f w)"
| unsubscribe: "reachable w \<Longrightarrow> reachable (Keyborg_unsubscribe a f w)"
| setVal: "reachable w \<Longrightarrow> Keyborg_setVal a v w = Inr (w', effs) \<Longrightarrow> reachable w'"
| focusin:
    "reachable w \<Longrightarrow> (KEYBORG_FOCUSIN, a) \<in> set (docListeners (getWin w win)) \<Longrightarrow>
     KeyborgCore_onFocusIn a fe w = Inr (w', effs) \<Longrightarrow> reachable w'"
| mousedown:
    "reachable w \<Longrightarrow> (''mousedown'', a) \<in> set (docListeners (getWin w win)) \<Longrightarrow>
     KeyborgCore_onMouseDown a me w = Inr (w', effs) \<Longrightarrow> reachable w'"
| keydown:
    "reachable w \<Longrightarrow> (''keydown'', a) \<in> set (winListeners (getWin w win)) \<Longrightarrow>
     KeyborgCore_onKeyDown a ke w = Inr (w', effs) \<Longrightarrow> reachable w'"
| timeout: "reachable w \<Longrightarrow> fireTimer win h w = Inr (w', effs) \<Longrightarrow> reachable w'"
| focus: "reachable w \<Longrightarrow> reachable (putWin win ((getWin w win)\<lparr>activeElement := el\<rparr>) w)"
| tick: "reachable w \<Longrightarrow> reachable (w\<lparr>now := now w + d\<rparr>)"
| discard: "reachable w \<Longrightarrow> reachable (discardWindow win w)"

subsection \<open>Well-formed stores\<close>

text \<open>Reading a decimal string back, to tell the identifiers apart.\<close>

definition digit_of :: "char \<Rightarrow> nat" where
  "digit_of c = of_char c - 48"

definition nat_of_string :: "string \<Rightarrow> nat" where
  "nat_of_string s = foldl (\<lambda>n c. 10 * n + digit_of c) 0 s"

text \<open>
  Objects were numbered by the counter, and the registry of the state singleton has one
  entry per key, each naming the core the key was made for.
\<close>

definition wf_ids :: "World \<Rightarrow> bool" where
  "wf_ids w \<longleftrightarrow>
     (\<forall>a kc. map_of (cores w) a = Some kc \<longrightarrow> a \<le> lastId w \<and> core_id kc = ''c'' @ string_of_nat a) \<and>
     (\<forall>a h. map_of (keyborgs w) a = Some h \<longrightarrow> a \<le> lastId w \<and> kb_id h = ''k'' @ string_of_nat a) \<and>
     distinct (map fst (keyborgCoreRefs (state w))) \<and>
     (\<forall>i r. map_of (keyborgCoreRefs (state w)) i = Some r \<longrightarrow>
        r \<le> lastId w \<and> i = ''c'' @ string_of_nat r)"

text \<open>
  A window without \<open>__keyborg\<close> has no listener of the module. A window with
  \<open>__keyborg\<close> has a non-empty handle registry whose entries are handles of this window
  under their own identifiers, its core holds the window and is registered in the state
  singleton, and the three listeners are those of its core.
\<close>

definition wf_window :: "World \<Rightarrow> window \<Rightarrow> bool" where
  "wf_window w win \<longleftrightarrow>
     (case keyborg (getWin w win) of
        None \<Rightarrow> docListeners (getWin w win) = [] \<and> winListeners (getWin w win) = []
      | Some k \<Rightarrow>
          refs k \<noteq> [] \<and>
          (\<forall>i ha. map_of (refs k) i = Some ha \<longrightarrow>
             (\<exists>h. map_of (keyborgs w) ha = Some h \<and> kb_id h = i \<and> kb_win h = Some win)) \<and>
          (\<exists>kc. map_of (cores w) (core k) = Some kc \<and> core_win kc = Some win \<and>
                map_of (keyborgCoreRefs (state w)) (core_id kc) = Some (core k)) \<and>
          docListeners (getWin w win) = [(KEYBORG_FOCUSIN, core k), (''mousedown'', core k)] \<and>
          winListeners (getWin w win) = [(''keydown'', core k)])"

text \<open>A handle that still has its window is in the handle registry of that window.\<close>

definition wf_handles :: "World \<Rightarrow> bool" where
  "wf_handles w \<longleftrightarrow>
     (\<forall>a h win. map_of (keyborgs w) a = Some h \<longrightarrow> kb_win h = Some win \<longrightarrow>
        (\<exists>k. keyborg (getWin w win) = Some k \<and> map_of (refs k) (kb_id h) = Some a))"

definition wf_world :: "World \<Rightarrow> bool" where
  "wf_world w \<longleftrightarrow> wf_ids w \<and> (\<forall>win. wf_window w win) \<and> wf_handles w"

text \<open>
  The invariant the data model states of the state singleton: with no core registered, the
  page is not in keyboard navigation.
\<close>

definition registry_inv :: "KeyborgState \<Rightarrow> bool" where
  "registry_inv s \<longleftrightarrow> (keyborgCoreRefs s = [] \<longrightarrow> \<not> isNavigatingWithKeyboard s)"

text \<open>
  \<open>frame w w'\<close>: from \<open>w\<close> to \<open>w'\<close> no object was created, no identifier, window reference,
  \<open>__keyborg\<close> or listener changed, and the registry of the state singleton lost at most
  entries whose core is gone.
\<close>

definition frame :: "World \<Rightarrow> World \<Rightarrow> bool" where
  "frame w w' \<longleftrightarrow>
     lastId w' = lastId w \<and>
     (\<forall>a. map_option (\<lambda>c. (core_id c, core_win c)) (map_of (cores w') a)
           = map_option (\<lambda>c. (core_id c, core_win c)) (map_of (cores w) a)) \<and>
     (\<forall>a. map_option (\<lambda>h. (kb_id h, kb_win h)) (map_of (keyborgs w') a)
           = map_option (\<lambda>h. (kb_id h, kb_win h)) (map_of (keyborgs w) a)) \<and>
     (\<forall>win. keyborg (getWin w' win) = keyborg (getWin w win) \<and>
            docListeners (getWin w' win) = docListeners (getWin w win) \<and>
            winListeners (getWin w' win) = winListeners (getWin w win)) \<and>
     (distinct (map fst (keyborgCoreRefs (state w))) \<longrightarrow>
        distinct (map fst (keyborgCoreRefs (state w')))) \<and>
     (\<forall>i r. map_of (keyborgCoreRefs (state w')) i = Some r \<longrightarrow>
        map_of (keyborgCoreRefs (state w)) i = Some r) \<and>
     (\<forall>i r. map_of (keyborgCoreRefs (state w)) i = Some r \<longrightarrow> map_of (cores w) r \<noteq> None \<longrightarrow>
        map_of (keyborgCoreRefs (state w')) i = Some r)"

text \<open>
  The timeout handles of a window that are pending were given out by \<open>setTimeout\<close>.
  \<open>timers_mono w w'\<close>: from \<open>w\<close> to \<open>w'\<close> no window took back a handle, and a
  timeout pending in \<open>w'\<close> was pending in \<open>w\<close> or has a handle given out since.
\<close>

definition timers_ok :: "World \<Rightarrow> bool" where
  "timers_ok w \<longleftrightarrow>
     (\<forall>win h. map_of (timers (getWin w win)) h \<noteq> None \<longrightarrow> h \<le> lastTimer (getWin w win))"

definition timers_mono :: "World \<Rightarrow> World \<Rightarrow> bool" where
  "timers_mono w w' \<longleftrightarrow>
     (\<forall>win. lastTimer (getWin w win) \<le> lastTimer (getWin w' win) \<and>
        (\<forall>h. map_of (timers (getWin w' win)) h \<noteq> None \<longrightarrow>
           map_of (timers (getWin w win)) h \<noteq> None \<or>
           (lastTimer (getWin w win) < h \<and> h \<le> lastTimer (getWin w' win))))"

subsection \<open>Example runs\<close>

text \<open>
  A page creates a handle on window 0 with Tab (9) as trigger key and Escape (27) as
  dismiss key and subscribes callback 7 (\<open>ex_one\<close>); then Tab is pressed (\<open>ex_nav\<close>).
\<close>

definition ex_props :: "KeyborgProps option" where
  "ex_props = Some \<lparr>triggerKeys = Some [9], dismissKeys = Some [27]\<rparr>"

definition ex_one :: World where
  "ex_one =
     \<lparr>lastId = 2,
      state = \<lparr>keyborgCoreRefs = [(''c2'', 2)], isNavigatingWithKeyboard = False\<rparr>,
      cores = [(2, \<lparr>core_id = ''c2'', core_win = Some 0, isMouseUsedTimer = None,
                    dismissTimer = None, core_triggerKeys = Some {9},
                    core_dismissKeys = Some {27}\<rparr>)],
      keyborgs = [(1, \<lparr>kb_id = ''k1'', kb_win = Some 0, kb_core = Some 2, kb_cb = [7]\<rparr>)],
      windows = [(0, \<lparr>keyborg = Some \<lparr>core = 2, refs = [(''k1'', 1)]\<rparr>,
                      activeElement = None,
                      docListeners = [(''keyborg:focusin'', 2), (''mousedown'', 2)],
                      winListeners = [(''keydown'', 2)], timers = [], lastTimer = 0,
                      focusEvent = True\<rparr>)],
      now = 0\<rparr>"

definition ex_nav :: World where
  "ex_nav = ex_one\<lparr>state := \<lparr>keyborgCoreRefs = [(''c2'', 2)], isNavigatingWithKeyboard = True\<rparr>\<rparr>"

text \<open>
  The page disposes of the handle of \<open>ex_one\<close> (\<open>ex_gone\<close>) and then calls \<open>setVal(true)\<close>
  on the disposed handle (\<open>ex_bug\<close>).
\<close>

definition ex_gone :: World where
  "ex_gone =
     \<lparr>lastId = 2,
      state = \<lparr>keyborgCoreRefs = [], isNavigatingWithKeyboard = False\<rparr>,
      cores = [(2, \<lparr>core_id = ''c2'', core_win = None, isMouseUsedTimer = None,
                    dismissTimer = None, core_triggerKeys = Some {9},
                    core_dismissKeys = Some {27}\<rparr>)],
      keyborgs = [(1, \<lparr>kb_id = ''k1'', kb_win = None, kb_core = None, kb_cb = []\<rparr>)],
      windows = [(0, \<lparr>keyborg = None, activeElement = None, docListeners = [],
                      winListeners = [], timers = [], lastTimer = 0, focusEvent = False\<rparr>)],
      now = 0\<rparr>"

definition ex_bug :: World where
  "ex_bug = ex_gone\<lparr>state := \<lparr>keyborgCoreRefs = [], isNavigatingWithKeyboard = True\<rparr>\<rparr>"

text \<open>A real click in \<open>ex_nav\<close> (\<open>ex_clicked\<close>).\<close>

definition ex_clicked :: World where
  "ex_clicked =
     \<lparr>lastId = 2,
      state = \<lparr>keyborgCoreRefs = [(''c2'', 2)], isNavigatingWithKeyboard = False\<rparr>,
      cores = [(2, \<lparr>core_id = ''c2'', core_win = Some 0, isMouseUsedTimer = Some 1,
                    dismissTimer = None, core_triggerKeys = Some {9},
                    core_dismissKeys = Some {27}\<rparr>)],
      keyborgs = [(1, \<lparr>kb_id = ''k1'', kb_win = Some 0, kb_core = Some 2, kb_cb = [7]\<rparr>)],
      windows = [(0, \<lparr>keyborg = Some \<lparr>core = 2, refs = [(''k1'', 1)]\<rparr>,
                      activeElement = None,
                      docListeners = [(''keyborg:focusin'', 2), (''mousedown'', 2)],
                      winListeners = [(''keydown'', 2)],
                      timers = [(1, 1000, MouseUsedTimeout 2)], lastTimer = 1,
                      focusEvent = True\<rparr>)],
      now = 0\<rparr>"

text \<open>
  In \<open>ex_nav\<close> element 4 receives the focus (\<open>ex_foc\<close>), Escape is pressed (\<open>ex_sched\<close>)
  and 500 ms pass (\<open>ex_due\<close>). Escape pressed in \<open>ex_nav\<close> itself, where no element has
  the focus (\<open>ex_nosel\<close>); \<open>ex_kept\<close> is the store after that timeout has run.
\<close>

definition ex_foc :: World where
  "ex_foc = putWin 0 ((getWin ex_nav 0)\<lparr>activeElement := Some 4\<rparr>) ex_nav"

definition ex_sched :: World where
  "ex_sched = KeyborgCore_scheduleDismiss 2 ex_foc"

definition ex_due :: World where
  "ex_due = ex_sched\<lparr>now := now ex_sched + 500\<rparr>"

definition ex_nosel :: World where
  "ex_nosel = KeyborgCore_scheduleDismiss 2 ex_nav"

definition ex_kept :: World where
  "ex_kept =
     ex_nav\<lparr>windows := [(0, \<lparr>keyborg = Some \<lparr>core = 2, refs = [(''k1'', 1)]\<rparr>,
                      activeElement = None,
                      docListeners = [(''keyborg:focusin'', 2), (''mousedown'', 2)],
                      winListeners = [(''keydown'', 2)], timers = [], lastTimer = 1,
                      focusEvent = True\<rparr>)],
            now := 500\<rparr>"

text \<open>
  A second handle on window 0, with callback 8 (\<open>ex_two\<close>); the first handle is disposed
  of (\<open>ex_left\<close>), then the second (\<open>ex_none\<close>).
\<close>

definition ex_two :: World where
  "ex_two =
     ex_one\<lparr>lastId := 3,
       keyborgs := [(1, \<lparr>kb_id = ''k1'', kb_win = Some 0, kb_core = Some 2, kb_cb = [7]\<rparr>),
                    (3, \<lparr>kb_id = ''k3'', kb_win = Some 0, kb_core = Some 2, kb_cb = [8]\<rparr>)],
       windows := [(0, \<lparr>keyborg = Some \<lparr>core = 2, refs = [(''k1'', 1), (''k3'', 3)]\<rparr>,
                       activeElement = None,
                       docListeners = [(''keyborg:focusin'', 2), (''mousedown'', 2)],
                       winListeners = [(''keydown'', 2)], timers = [], lastTimer = 0,
                       focusEvent = True\<rparr>)]\<rparr>"

definition ex_left :: World where
  "ex_left =
     ex_two\<lparr>
       keyborgs := [(1, \<lparr>kb_id = ''k1'', kb_win = None, kb_core = None, kb_cb = []\<rparr>),
                    (3, \<lparr>kb_id = ''k3'', kb_win = Some 0, kb_core = Some 2, kb_cb = [8]\<rparr>)],
       windows := [(0, \<lparr>keyborg = Some \<lparr>core = 2, refs = [(''k3'', 3)]\<rparr>,
                       activeElement = None,
                       docListeners = [(''keyborg:focusin'', 2), (''mousedown'', 2)],
                       winListeners = [(''keydown'', 2)], timers = [], lastTimer = 0,
                       focusEvent = True\<rparr>)]\<rparr>"

definition ex_none :: World where
  "ex_none =
     ex_gone\<lparr>lastId := 3,
       keyborgs := [(1, \<lparr>kb_id = ''k1'', kb_win = None, kb_core = None, kb_cb = []\<rparr>),
                    (3, \<lparr>kb_id = ''k3'', kb_win = None, kb_core = None, kb_cb = []\<rparr>)]\<rparr>"

subsection \<open>A sequence of \<open>setVal\<close> calls\<close>

fun setVal_calls :: "bool list \<Rightarrow> World \<Rightarrow> error + World \<times> effect list" where
  "setVal_calls [] w = Inr (w, [])"
| "setVal_calls (v # vs) w =
     (case KeyborgState_setVal v w of
        Inl e \<Rightarrow> Inl e
      | Inr (w1, effs) \<Rightarrow>
          (case setVal_calls vs w1 of
             Inl e \<Rightarrow> Inl e
           | Inr (w2, effs') \<Rightarrow> Inr (w2, effs @ effs')))"

section \<open>Properties\<close>

subsection \<open>The store\<close>

lemma cores_putWin [simp]: "cores (putWin win x w) = cores w"
  and keyborgs_putWin [simp]: "keyborgs (putWin win x w) = keyborgs w"
  and state_putWin [simp]: "state (putWin win x w) = state w"
  and lastId_putWin [simp]: "lastId (putWin win x w) = lastId w"
  and now_putWin [simp]: "now (putWin win x w) = now w"
  by (simp_all add: putWin_def)

lemma getWin_putWin [simp]:
  "getWin (putWin win x w) win' = (if win' = win then x else getWin w win')"
  by (simp add: getWin_def putWin_def AList.update_conv')

lemma windows_modCore [simp]: "windows (modCore a f w) = windows w"
  and keyborgs_modCore [simp]: "keyborgs (modCore a f w) = keyborgs w"
  and state_modCore [simp]: "state (modCore a f w) = state w"
  and lastId_modCore [simp]: "lastId (modCore a f w) = lastId w"
  and now_modCore [simp]: "now (modCore a f w) = now w"
  by (simp_all add: modCore_def split: option.splits)

lemma getWin_modCore [simp]: "getWin (modCore a f w) win = getWin w win"
  by (simp add: getWin_def)

lemma map_of_cores_modCore [simp]:
  "map_of (cores (modCore a f w)) b =
     (if b = a then map_option f (map_of (cores w) a) else map_of (cores w) b)"
  by (simp add: modCore_def AList.update_conv' split: option.splits)

lemma windows_modKeyborg [simp]: "windows (modKeyborg a f w) = windows w"
  and cores_modKeyborg [simp]: "cores (modKeyborg a f w) = cores w"
  and state_modKeyborg [simp]: "state (modKeyborg a f w) = state w"
  and lastId_modKeyborg [simp]: "lastId (modKeyborg a f w) = lastId w"
  and now_modKeyborg [simp]: "now (modKeyborg a f w) = now w"
  by (simp_all add: modKeyborg_def split: option.splits)

lemma getWin_modKeyborg [simp]: "getWin (modKeyborg a f w) win = getWin w win"
  by (simp add: getWin_def)

lemma map_of_keyborgs_modKeyborg [simp]:
  "map_of (keyborgs (modKeyborg a f w)) b =
     (if b = a then map_option f (map_of (keyborgs w) a) else map_of (keyborgs w) b)"
  by (simp add: modKeyborg_def AList.update_conv' split: option.splits)

lemma cores_clearTimeout [simp]: "cores (clearTimeout win h w) = cores w"
  and keyborgs_clearTimeout [simp]: "keyborgs (clearTimeout win h w) = keyborgs w"
  and state_clearTimeout [simp]: "state (clearTimeout win h w) = state w"
  and lastId_clearTimeout [simp]: "lastId (clearTimeout win h w) = lastId w"
  and now_clearTimeout [simp]: "now (clearTimeout win h w) = now w"
  by (simp_all add: clearTimeout_def Let_def)

lemma cores_setTimeout [simp]: "cores (snd (setTimeout win f d w)) = cores w"
  and keyborgs_setTimeout [simp]: "keyborgs (snd (setTimeout win f d w)) = keyborgs w"
  and state_setTimeout [simp]: "state (snd (setTimeout win f d w)) = state w"
  and lastId_setTimeout [simp]: "lastId (snd (setTimeout win f d w)) = lastId w"
  and now_setTimeout [simp]: "now (snd (setTimeout win f d w)) = now w"
  by (simp_all add: setTimeout_def Let_def)

lemma cores_setupFocusEvent [simp]: "cores (setupFocusEvent win w) = cores w"
  and keyborgs_setupFocusEvent [simp]: "keyborgs (setupFocusEvent win w) = keyborgs w"
  and state_setupFocusEvent [simp]: "state (setupFocusEvent win w) = state w"
  and lastId_setupFocusEvent [simp]: "lastId (setupFocusEvent win w) = lastId w"
  and now_setupFocusEvent [simp]: "now (setupFocusEvent win w) = now w"
  by (simp_all add: setupFocusEvent_def)

lemma cores_disposeFocusEvent [simp]: "cores (disposeFocusEvent win w) = cores w"
  and keyborgs_disposeFocusEvent [simp]: "keyborgs (disposeFocusEvent win w) = keyborgs w"
  and state_disposeFocusEvent [simp]: "state (disposeFocusEvent win w) = state w"
  and lastId_disposeFocusEvent [simp]: "lastId (disposeFocusEvent win w) = lastId w"
  and now_disposeFocusEvent [simp]: "now (disposeFocusEvent win w) = now w"
  by (simp_all add: disposeFocusEvent_def)

lemma getWin_clearTimeout:
  "getWin (clearTimeout win h w) win' =
     (if win' = win then (getWin w win)\<lparr>timers := AList.delete h (timers (getWin w win))\<rparr>
      else getWin w win')"
  by (simp add: clearTimeout_def Let_def)

lemma getWin_setTimeout:
  "getWin (snd (setTimeout win f d w)) win' =
     (if win' = win
      then (getWin w win)\<lparr>lastTimer := lastTimer (getWin w win) + 1,
             timers := timers (getWin w win) @ [(lastTimer (getWin w win) + 1, now w + d, f)]\<rparr>
      else getWin w win')"
  by (simp add: setTimeout_def Let_def)

lemma fst_setTimeout: "fst (setTimeout win f d w) = lastTimer (getWin w win) + 1"
  by (simp add: setTimeout_def Let_def)

lemma getWin_setupFocusEvent:
  "getWin (setupFocusEvent win w) win' =
     (if win' = win then (getWin w win)\<lparr>focusEvent := True\<rparr> else getWin w win')"
  by (simp add: setupFocusEvent_def)

lemma getWin_disposeFocusEvent:
  "getWin (disposeFocusEvent win w) win' =
     (if win' = win then (getWin w win)\<lparr>focusEvent := False\<rparr> else getWin w win')"
  by (simp add: disposeFocusEvent_def)

subsection \<open>Identifiers\<close>

lemma digit_of_digit: "d < 10 \<Longrightarrow> digit_of (''0123456789'' ! d) = d"
proof -
  assume "d < 10"
  then have "d \<in> {0, 1, 2, 3, 4, 5, 6, 7, 8, 9}" by auto
  then show ?thesis by (auto simp: digit_of_def)
qed

lemma nat_of_string_of_nat: "nat_of_string (string_of_nat n) = n"
proof (induction n rule: string_of_nat.induct)
  case (1 n)
  show ?case
  proof (cases "n < 10")
    case True
    then show ?thesis
      by (subst string_of_nat.simps) (simp add: nat_of_string_def digit_of_digit)
  next
    case False
    with 1 have "nat_of_string (string_of_nat (n div 10)) = n div 10" by simp
    with False show ?thesis
      by (subst string_of_nat.simps) (simp add: nat_of_string_def digit_of_digit)
  qed
qed

lemma string_of_nat_inj: "string_of_nat m = string_of_nat n \<Longrightarrow> m = n"
  by (metis nat_of_string_of_nat)

subsection \<open>Subscriptions\<close>

lemma indexOf_nonneg_iff: "0 \<le> indexOf fs f \<longleftrightarrow> f \<in> set fs"
  by (induction fs) (auto simp: Let_def)

lemma unsubscribe_cb_remove1: "unsubscribe_cb f fs = remove1 f fs"
proof (induction fs)
  case Nil
  show ?case by (simp add: unsubscribe_cb_def splice1_def)
next
  case (Cons g fs)
  show ?case
  proof (cases "g = f")
    case True
    then show ?thesis by (simp add: unsubscribe_cb_def splice1_def)
  next
    case False
    show ?thesis
    proof (cases "f \<in> set fs")
      case True
      then have i: "0 \<le> indexOf fs f" by (simp add: indexOf_nonneg_iff)
      then have "nat (indexOf fs f + 1) = Suc (nat (indexOf fs f))" by simp
      with Cons False i show ?thesis
        by (simp add: unsubscribe_cb_def splice1_def Let_def)
    next
      case False
      then have "\<not> 0 \<le> indexOf fs f" by (simp add: indexOf_nonneg_iff)
      with Cons \<open>g \<noteq> f\<close> show ?thesis
        by (simp add: unsubscribe_cb_def splice1_def Let_def)
    qed
  qed
qed

subsection \<open>The loop of \<open>setVal\<close>\<close>

lemma keyborgCoreRefs_remove [simp]:
  "keyborgCoreRefs (KeyborgState_remove i s) = AList.delete i (keyborgCoreRefs s)"
  by (simp add: KeyborgState_remove_def Let_def)

lemma isNav_remove [simp]:
  "isNavigatingWithKeyboard (KeyborgState_remove i s) =
     (if AList.delete i (keyborgCoreRefs s) = [] then False else isNavigatingWithKeyboard s)"
  by (simp add: KeyborgState_remove_def Let_def)

lemma update_loop_ok: "set ids \<subseteq> fst ` set ks \<Longrightarrow> \<exists>effs. update_loop ids ks v w = Inr effs"
proof (induction ids)
  case Nil
  show ?case by simp
next
  case (Cons i ids)
  then obtain effs where "update_loop ids ks v w = Inr effs" by auto
  moreover from Cons.prems obtain ha where "map_of ks i = Some ha"
    by (cases "map_of ks i") (auto simp: map_of_eq_None_iff)
  ultimately show ?case by simp
qed

lemma KeyborgCore_update_ok: "\<exists>effs. KeyborgCore_update kc v w = Inr effs"
  by (auto simp: KeyborgCore_update_def update_loop_ok split: option.splits)

lemma setVal_loop_same:
  "setVal_loop ids v w = Inr (w', effs) \<Longrightarrow>
     cores w' = cores w \<and> keyborgs w' = keyborgs w \<and> windows w' = windows w \<and>
     lastId w' = lastId w \<and> now w' = now w"
proof (induction ids arbitrary: w effs)
  case Nil
  then show ?case by simp
next
  case (Cons i ids)
  from Cons.prems obtain r where r: "map_of (keyborgCoreRefs (state w)) i = Some r"
    by (cases "map_of (keyborgCoreRefs (state w)) i") auto
  show ?case
  proof (cases "deref w r")
    case None
    with Cons.prems r
    have "setVal_loop ids v (w\<lparr>state := KeyborgState_remove i (state w)\<rparr>) = Inr (w', effs)"
      by simp
    from Cons.IH [OF this] show ?thesis by simp
  next
    case (Some kc)
    with Cons.prems r obtain effs' where "setVal_loop ids v w = Inr (w', effs')"
      by (auto split: sum.splits)
    from Cons.IH [OF this] show ?thesis .
  qed
qed

lemma setVal_loop_registry:
  "setVal_loop ids v w = Inr (w', effs) \<Longrightarrow>
     (distinct (map fst (keyborgCoreRefs (state w))) \<longrightarrow>
        distinct (map fst (keyborgCoreRefs (state w')))) \<and>
     (\<forall>i r. map_of (keyborgCoreRefs (state w')) i = Some r \<longrightarrow>
        map_of (keyborgCoreRefs (state w)) i = Some r) \<and>
     (\<forall>i r. map_of (keyborgCoreRefs (state w)) i = Some r \<longrightarrow> map_of (cores w) r \<noteq> None \<longrightarrow>
        map_of (keyborgCoreRefs (state w')) i = Some r)"
proof (induction ids arbitrary: w effs)
  case Nil
  then show ?case by simp
next
  case (Cons i ids)
  from Cons.prems obtain r where r: "map_of (keyborgCoreRefs (state w)) i = Some r"
    by (cases "map_of (keyborgCoreRefs (state w)) i") auto
  show ?case
  proof (cases "deref w r")
    case None
    let ?w1 = "w\<lparr>state := KeyborgState_remove i (state w)\<rparr>"
    from None Cons.prems r have "setVal_loop ids v ?w1 = Inr (w', effs)"
      by simp
    note ih = Cons.IH [OF this, simplified]
    have d: "distinct (map fst (AList.delete i (keyborgCoreRefs (state w)))) \<longrightarrow>
               distinct (map fst (keyborgCoreRefs (state w')))"
      and sub: "\<And>j q. map_of (keyborgCoreRefs (state w')) j = Some q \<Longrightarrow>
               map_of (AList.delete i (keyborgCoreRefs (state w))) j = Some q"
      and keep: "\<And>j q. map_of (AList.delete i (keyborgCoreRefs (state w))) j = Some q \<Longrightarrow>
               map_of (cores w) q \<noteq> None \<Longrightarrow> map_of (keyborgCoreRefs (state w')) j = Some q"
      using ih by blast+
    have c1: "distinct (map fst (keyborgCoreRefs (state w))) \<longrightarrow>
        distinct (map fst (keyborgCoreRefs (state w')))"
      using d by (simp add: AList.distinct_delete)
    have c2: "map_of (keyborgCoreRefs (state w)) j = Some q"
      if "map_of (keyborgCoreRefs (state w')) j = Some q" for j q
      using sub [OF that] by (simp add: AList.delete_conv' split: if_splits)
    have c3: "map_of (keyborgCoreRefs (state w')) j = Some q"
      if "map_of (keyborgCoreRefs (state w)) j = Some q" "map_of (cores w) q \<noteq> None" for j q
    proof -
      from that r None have "j \<noteq> i" by (auto simp: deref_def)
      with that have "map_of (AList.delete i (keyborgCoreRefs (state w))) j = Some q"
        by (simp add: AList.delete_conv')
      from keep [OF this that(2)] show ?thesis .
    qed
    from c1 c2 c3 show ?thesis by blast
  next
    case (Some kc)
    with Cons.prems r obtain effs' where "setVal_loop ids v w = Inr (w', effs')"
      by (auto split: sum.splits)
    from Cons.IH [OF this] show ?thesis .
  qed
qed

lemma setVal_loop_nav:
  "setVal_loop ids v w = Inr (w', effs) \<Longrightarrow>
     isNavigatingWithKeyboard (state w') = isNavigatingWithKeyboard (state w) \<or>
     (\<not> isNavigatingWithKeyboard (state w') \<and> keyborgCoreRefs (state w') = [])"
proof (induction ids arbitrary: w effs)
  case Nil
  then show ?case by simp
next
  case (Cons i ids)
  from Cons.prems obtain r where r: "map_of (keyborgCoreRefs (state w)) i = Some r"
    by (cases "map_of (keyborgCoreRefs (state w)) i") auto
  show ?case
  proof (cases "deref w r")
    case None
    let ?w1 = "w\<lparr>state := KeyborgState_remove i (state w)\<rparr>"
    from None Cons.prems r have run: "setVal_loop ids v ?w1 = Inr (w', effs)"
      by simp
    from setVal_loop_registry [OF run]
    have sub: "\<forall>i r. map_of (keyborgCoreRefs (state w')) i = Some r \<longrightarrow>
        map_of (keyborgCoreRefs (state ?w1)) i = Some r" by blast
    show ?thesis
    proof (cases "AList.delete i (keyborgCoreRefs (state w)) = []")
      case True
      with sub have "\<forall>i r. map_of (keyborgCoreRefs (state w')) i \<noteq> Some r" by simp
      then have "keyborgCoreRefs (state w') = []"
        by (cases "keyborgCoreRefs (state w')") (auto split: if_splits)
      moreover from Cons.IH [OF run] True
      have "\<not> isNavigatingWithKeyboard (state w') " by auto
      ultimately show ?thesis by simp
    next
      case False
      with Cons.IH [OF run] show ?thesis by auto
    qed
  next
    case (Some kc)
    with Cons.prems r obtain effs' where "setVal_loop ids v w = Inr (w', effs')"
      by (auto split: sum.splits)
    from Cons.IH [OF this] show ?thesis .
  qed
qed

lemma setVal_loop_ok:
  "distinct ids \<Longrightarrow> \<forall>i\<in>set ids. map_of (keyborgCoreRefs (state w)) i \<noteq> None \<Longrightarrow>
     \<exists>w' effs. setVal_loop ids v w = Inr (w', effs)"
proof (induction ids arbitrary: w)
  case Nil
  show ?case by simp
next
  case (Cons i ids)
  from Cons.prems obtain r where r: "map_of (keyborgCoreRefs (state w)) i = Some r" by auto
  show ?case
  proof (cases "deref w r")
    case None
    let ?w1 = "w\<lparr>state := KeyborgState_remove i (state w)\<rparr>"
    from Cons.prems have "\<forall>j\<in>set ids. map_of (keyborgCoreRefs (state ?w1)) j \<noteq> None"
      by (auto simp: AList.delete_conv')
    with Cons.IH [of ?w1] Cons.prems obtain w' effs where "setVal_loop ids v ?w1 = Inr (w', effs)"
      by auto
    with None r show ?thesis by simp
  next
    case (Some kc)
    from Cons.IH [of w] Cons.prems obtain w' effs where "setVal_loop ids v w = Inr (w', effs)"
      by auto
    moreover obtain effs0 where "KeyborgCore_update kc v w = Inr effs0"
      using KeyborgCore_update_ok by blast
    ultimately show ?thesis using Some r by simp
  qed
qed

subsection \<open>Frames\<close>

lemma frameI:
  assumes "lastId w' = lastId w"
    and "\<And>a. map_option (\<lambda>c. (core_id c, core_win c)) (map_of (cores w') a)
           = map_option (\<lambda>c. (core_id c, core_win c)) (map_of (cores w) a)"
    and "\<And>a. map_option (\<lambda>h. (kb_id h, kb_win h)) (map_of (keyborgs w') a)
           = map_option (\<lambda>h. (kb_id h, kb_win h)) (map_of (keyborgs w) a)"
    and "\<And>win. keyborg (getWin w' win) = keyborg (getWin w win)"
    and "\<And>win. docListeners (getWin w' win) = docListeners (getWin w win)"
    and "\<And>win. winListeners (getWin w' win) = winListeners (getWin w win)"
    and "distinct (map fst (keyborgCoreRefs (state w))) \<Longrightarrow>
           distinct (map fst (keyborgCoreRefs (state w')))"
    and "\<And>i r. map_of (keyborgCoreRefs (state w')) i = Some r \<Longrightarrow>
           map_of (keyborgCoreRefs (state w)) i = Some r"
    and "\<And>i r. map_of (keyborgCoreRefs (state w)) i = Some r \<Longrightarrow> map_of (cores w) r \<noteq> None \<Longrightarrow>
           map_of (keyborgCoreRefs (state w')) i = Some r"
  shows "frame w w'"
  unfolding frame_def using assms by blast

lemma frame_lastId: "frame w w' \<Longrightarrow> lastId w' = lastId w"
  unfolding frame_def by blast

lemma frame_cores:
  "frame w w' \<Longrightarrow> map_option (\<lambda>c. (core_id c, core_win c)) (map_of (cores w') a)
           = map_option (\<lambda>c. (core_id c, core_win c)) (map_of (cores w) a)"
  unfolding frame_def by blast

lemma frame_keyborgs:
  "frame w w' \<Longrightarrow> map_option (\<lambda>h. (kb_id h, kb_win h)) (map_of (keyborgs w') a)
           = map_option (\<lambda>h. (kb_id h, kb_win h)) (map_of (keyborgs w) a)"
  unfolding frame_def by blast

lemma frame_keyborg: "frame w w' \<Longrightarrow> keyborg (getWin w' win) = keyborg (getWin w win)"
  unfolding frame_def by blast

lemma frame_docListeners:
  "frame w w' \<Longrightarrow> docListeners (getWin w' win) = docListeners (getWin w win)"
  unfolding frame_def by blast

lemma frame_winListeners:
  "frame w w' \<Longrightarrow> winListeners (getWin w' win) = winListeners (getWin w win)"
  unfolding frame_def by blast

lemma frame_distinct:
  "frame w w' \<Longrightarrow> distinct (map fst (keyborgCoreRefs (state w))) \<Longrightarrow>
     distinct (map fst (keyborgCoreRefs (state w')))"
  unfolding frame_def by blast

lemma frame_sub:
  "frame w w' \<Longrightarrow> map_of (keyborgCoreRefs (state w')) i = Some r \<Longrightarrow>
     map_of (keyborgCoreRefs (state w)) i = Some r"
  unfolding frame_def by blast

lemma frame_keep:
  "frame w w' \<Longrightarrow> map_of (keyborgCoreRefs (state w)) i = Some r \<Longrightarrow>
     map_of (cores w) r \<noteq> None \<Longrightarrow> map_of (keyborgCoreRefs (state w')) i = Some r"
  unfolding frame_def by blast

lemma frame_core_Some:
  assumes "frame w w'" and "map_of (cores w) a = Some kc"
  shows "\<exists>kc'. map_of (cores w') a = Some kc' \<and> core_id kc' = core_id kc \<and> core_win kc' = core_win kc"
  using frame_cores [OF assms(1), of a] assms(2) by (cases "map_of (cores w') a") auto

lemma frame_core_Some_rev:
  assumes "frame w w'" and "map_of (cores w') a = Some kc'"
  shows "\<exists>kc. map_of (cores w) a = Some kc \<and> core_id kc' = core_id kc \<and> core_win kc' = core_win kc"
  using frame_cores [OF assms(1), of a] assms(2) by (cases "map_of (cores w) a") auto

lemma frame_keyborg_Some:
  assumes "frame w w'" and "map_of (keyborgs w) a = Some h"
  shows "\<exists>h'. map_of (keyborgs w') a = Some h' \<and> kb_id h' = kb_id h \<and> kb_win h' = kb_win h"
  using frame_keyborgs [OF assms(1), of a] assms(2) by (cases "map_of (keyborgs w') a") auto

lemma frame_keyborg_Some_rev:
  assumes "frame w w'" and "map_of (keyborgs w') a = Some h'"
  shows "\<exists>h. map_of (keyborgs w) a = Some h \<and> kb_id h' = kb_id h \<and> kb_win h' = kb_win h"
  using frame_keyborgs [OF assms(1), of a] assms(2) by (cases "map_of (keyborgs w) a") auto

lemma frame_refl: "frame w w"
  by (rule frameI) simp_all

lemma frame_trans:
  assumes "frame w w'" and "frame w' w''"
  shows "frame w w''"
proof (rule frameI)
  show "lastId w'' = lastId w"
    using assms by (simp add: frame_lastId)
  show "map_option (\<lambda>c. (core_id c, core_win c)) (map_of (cores w'') a)
           = map_option (\<lambda>c. (core_id c, core_win c)) (map_of (cores w) a)" for a
    using assms by (simp add: frame_cores)
  show "map_option (\<lambda>h. (kb_id h, kb_win h)) (map_of (keyborgs w'') a)
           = map_option (\<lambda>h. (kb_id h, kb_win h)) (map_of (keyborgs w) a)" for a
    using assms by (simp add: frame_keyborgs)
  show "keyborg (getWin w'' win) = keyborg (getWin w win)" for win
    using assms by (simp add: frame_keyborg)
  show "docListeners (getWin w'' win) = docListeners (getWin w win)" for win
    using assms by (simp add: frame_docListeners)
  show "winListeners (getWin w'' win) = winListeners (getWin w win)" for win
    using assms by (simp add: frame_winListeners)
  show "distinct (map fst (keyborgCoreRefs (state w''))) "
    if "distinct (map fst (keyborgCoreRefs (state w)))"
    using assms that by (blast intro: frame_distinct)
  show "map_of (keyborgCoreRefs (state w)) i = Some r"
    if "map_of (keyborgCoreRefs (state w'')) i = Some r" for i r
    using assms that by (blast intro: frame_sub)
  show "map_of (keyborgCoreRefs (state w'')) i = Some r"
    if "map_of (keyborgCoreRefs (state w)) i = Some r" "map_of (cores w) r \<noteq> None" for i r
  proof -
    from that(2) obtain kc where "map_of (cores w) r = Some kc" by auto
    from frame_core_Some [OF assms(1) this] have "map_of (cores w') r \<noteq> None" by auto
    moreover from frame_keep [OF assms(1) that] have "map_of (keyborgCoreRefs (state w')) i = Some r" .
    ultimately show ?thesis using frame_keep [OF assms(2)] by blast
  qed
qed

lemma frame_putWin:
  assumes "keyborg x = keyborg (getWin w win)"
    and "docListeners x = docListeners (getWin w win)"
    and "winListeners x = winListeners (getWin w win)"
  shows "frame w (putWin win x w)"
  using assms by (intro frameI) simp_all

lemma frame_modCore:
  assumes "\<And>c. core_id (f c) = core_id c" and "\<And>c. core_win (f c) = core_win c"
  shows "frame w (modCore a f w)"
  using assms by (intro frameI) (simp_all add: option.map_comp comp_def)

lemma frame_modKeyborg:
  assumes "\<And>h. kb_id (f h) = kb_id h" and "\<And>h. kb_win (f h) = kb_win h"
  shows "frame w (modKeyborg a f w)"
  using assms by (intro frameI) (simp_all add: option.map_comp comp_def)

lemma frame_clearTimeout: "frame w (clearTimeout win h w)"
  by (simp add: clearTimeout_def Let_def frame_putWin)

lemma frame_setTimeout: "frame w (snd (setTimeout win f d w))"
  by (simp add: setTimeout_def Let_def frame_putWin)

lemma frame_now: "frame w (w\<lparr>now := t\<rparr>)"
  by (intro frameI) (simp_all add: getWin_def)

lemma frame_setVal_loop:
  assumes "setVal_loop ids v w = Inr (w', effs)"
  shows "frame w w'"
proof (rule frameI)
  note same = setVal_loop_same [OF assms]
  note reg = setVal_loop_registry [OF assms]
  show "lastId w' = lastId w" using same by simp
  show "map_option (\<lambda>c. (core_id c, core_win c)) (map_of (cores w') a)
           = map_option (\<lambda>c. (core_id c, core_win c)) (map_of (cores w) a)" for a
    using same by simp
  show "map_option (\<lambda>h. (kb_id h, kb_win h)) (map_of (keyborgs w') a)
           = map_option (\<lambda>h. (kb_id h, kb_win h)) (map_of (keyborgs w) a)" for a
    using same by simp
  show "keyborg (getWin w' win) = keyborg (getWin w win)" for win
    using same by (simp add: getWin_def)
  show "docListeners (getWin w' win) = docListeners (getWin w win)" for win
    using same by (simp add: getWin_def)
  show "winListeners (getWin w' win) = winListeners (getWin w win)" for win
    using same by (simp add: getWin_def)
  show "distinct (map fst (keyborgCoreRefs (state w'))) "
    if "distinct (map fst (keyborgCoreRefs (state w)))"
    using reg that by blast
  show "map_of (keyborgCoreRefs (state w)) i = Some r"
    if "map_of (keyborgCoreRefs (state w')) i = Some r" for i r
    using reg that by blast
  show "map_of (keyborgCoreRefs (state w')) i = Some r"
    if "map_of (keyborgCoreRefs (state w)) i = Some r" "map_of (cores w) r \<noteq> None" for i r
    using reg that by blast
qed

lemma frame_setVal:
  assumes "KeyborgState_setVal v w = Inr (w', effs)"
  shows "frame w w'"
proof (cases "isNavigatingWithKeyboard (state w) = v")
  case True
  with assms show ?thesis by (simp add: KeyborgState_setVal_def frame_refl)
next
  case False
  let ?w1 = "w\<lparr>state := (state w)\<lparr>isNavigatingWithKeyboard := v\<rparr>\<rparr>"
  have "frame w ?w1" by (intro frameI) (simp_all add: getWin_def)
  moreover from False assms have "frame ?w1 w'"
    by (simp add: KeyborgState_setVal_def Let_def frame_setVal_loop)
  ultimately show ?thesis by (rule frame_trans)
qed

lemma wf_ids_frame:
  assumes "wf_ids w" and "frame w w'"
  shows "wf_ids w'"
  unfolding wf_ids_def
proof (intro conjI allI impI)
  fix a kc' assume "map_of (cores w') a = Some kc'"
  from frame_core_Some_rev [OF assms(2) this] obtain kc
    where "map_of (cores w) a = Some kc" "core_id kc' = core_id kc" by blast
  with assms(1) have "a \<le> lastId w \<and> core_id kc' = ''c'' @ string_of_nat a"
    unfolding wf_ids_def by metis
  then show "a \<le> lastId w'" and "core_id kc' = ''c'' @ string_of_nat a"
    by (simp_all add: frame_lastId [OF assms(2)])
next
  fix a h' assume "map_of (keyborgs w') a = Some h'"
  from frame_keyborg_Some_rev [OF assms(2) this] obtain h
    where "map_of (keyborgs w) a = Some h" "kb_id h' = kb_id h" by blast
  with assms(1) have "a \<le> lastId w \<and> kb_id h' = ''k'' @ string_of_nat a"
    unfolding wf_ids_def by metis
  then show "a \<le> lastId w'" and "kb_id h' = ''k'' @ string_of_nat a"
    by (simp_all add: frame_lastId [OF assms(2)])
next
  from assms(1) have "distinct (map fst (keyborgCoreRefs (state w)))"
    unfolding wf_ids_def by blast
  then show "distinct (map fst (keyborgCoreRefs (state w')))"
    by (rule frame_distinct [OF assms(2)])
next
  fix i r assume "map_of (keyborgCoreRefs (state w')) i = Some r"
  from frame_sub [OF assms(2) this] assms(1)
  have "r \<le> lastId w \<and> i = ''c'' @ string_of_nat r"
    unfolding wf_ids_def by blast
  then show "r \<le> lastId w'" and "i = ''c'' @ string_of_nat r"
    by (simp_all add: frame_lastId [OF assms(2)])
qed

lemma wf_window_frame:
  assumes "wf_window w win" and "frame w w'"
  shows "wf_window w' win"
proof (cases "keyborg (getWin w win)")
  case None
  with assms(1) have "docListeners (getWin w win) = [] \<and> winListeners (getWin w win) = []"
    by (simp add: wf_window_def)
  with None show ?thesis
    by (simp add: wf_window_def frame_keyborg [OF assms(2)] frame_docListeners [OF assms(2)]
        frame_winListeners [OF assms(2)])
next
  case (Some k)
  with assms(1) have ne: "refs k \<noteq> []"
    and ent: "\<And>i ha. map_of (refs k) i = Some ha \<Longrightarrow>
             \<exists>h. map_of (keyborgs w) ha = Some h \<and> kb_id h = i \<and> kb_win h = Some win"
    and co: "\<exists>kc. map_of (cores w) (core k) = Some kc \<and> core_win kc = Some win \<and>
                map_of (keyborgCoreRefs (state w)) (core_id kc) = Some (core k)"
    and ls: "docListeners (getWin w win) = [(KEYBORG_FOCUSIN, core k), (''mousedown'', core k)]"
      "winListeners (getWin w win) = [(''keydown'', core k)]"
    by (simp_all add: wf_window_def)
  have ent': "\<exists>h. map_of (keyborgs w') ha = Some h \<and> kb_id h = i \<and> kb_win h = Some win"
    if "map_of (refs k) i = Some ha" for i ha
  proof -
    from ent [OF that] obtain h where h: "map_of (keyborgs w) ha = Some h" "kb_id h = i" "kb_win h = Some win"
      by blast
    from frame_keyborg_Some [OF assms(2) h(1)] h(2,3) show ?thesis by auto
  qed
  from co obtain kc where kc: "map_of (cores w) (core k) = Some kc" "core_win kc = Some win"
      "map_of (keyborgCoreRefs (state w)) (core_id kc) = Some (core k)" by blast
  from frame_core_Some [OF assms(2) kc(1)] obtain kc' where kc': "map_of (cores w') (core k) = Some kc'"
      "core_id kc' = core_id kc" "core_win kc' = core_win kc" by blast
  from kc(1) have "map_of (cores w) (core k) \<noteq> None" by simp
  from frame_keep [OF assms(2) kc(3) this] kc' kc(2)
  have co': "\<exists>kc. map_of (cores w') (core k) = Some kc \<and> core_win kc = Some win \<and>
                map_of (keyborgCoreRefs (state w')) (core_id kc) = Some (core k)"
    by simp
  from Some ne ent' co' ls show ?thesis
    by (simp add: wf_window_def frame_keyborg [OF assms(2)] frame_docListeners [OF assms(2)]
        frame_winListeners [OF assms(2)])
qed

lemma wf_handles_frame:
  assumes "wf_handles w" and "frame w w'"
  shows "wf_handles w'"
  unfolding wf_handles_def
proof (intro allI impI)
  fix a h' win assume h': "map_of (keyborgs w') a = Some h'" "kb_win h' = Some win"
  from frame_keyborg_Some_rev [OF assms(2) h'(1)] obtain h
    where h: "map_of (keyborgs w) a = Some h" "kb_id h' = kb_id h" "kb_win h' = kb_win h" by blast
  with assms(1) h'(2) obtain k where "keyborg (getWin w win) = Some k" "map_of (refs k) (kb_id h) = Some a"
    unfolding wf_handles_def by metis
  then show "\<exists>k. keyborg (getWin w' win) = Some k \<and> map_of (refs k) (kb_id h') = Some a"
    by (simp add: frame_keyborg [OF assms(2)] h(2))
qed

lemma wf_frame:
  assumes "wf_world w" and "frame w w'"
  shows "wf_world w'"
  using assms wf_ids_frame wf_window_frame wf_handles_frame
  unfolding wf_world_def by blast

lemma frame_modCore_dismissTimer: "frame u (modCore a (\<lambda>c. c\<lparr>dismissTimer := t\<rparr>) u)"
  by (rule frame_modCore) simp_all

lemma frame_modCore_isMouseUsedTimer: "frame u (modCore a (\<lambda>c. c\<lparr>isMouseUsedTimer := t\<rparr>) u)"
  by (rule frame_modCore) simp_all

lemma frame_clear_dismissTimer:
  "frame w (case t of
              None \<Rightarrow> w
            | Some h \<Rightarrow>
                if h \<noteq> 0
                then modCore a (\<lambda>c. c\<lparr>dismissTimer := None\<rparr>) (clearTimeout win h w)
                else w)"
proof (cases t)
  case None
  then show ?thesis by (simp add: frame_refl)
next
  case (Some h)
  then show ?thesis
    using frame_trans [OF frame_clearTimeout frame_modCore_dismissTimer]
    by (simp add: frame_refl)
qed

lemma frame_clear_isMouseUsedTimer:
  "frame w (case t of
              None \<Rightarrow> w
            | Some h \<Rightarrow>
                if h \<noteq> 0
                then modCore a (\<lambda>c. c\<lparr>isMouseUsedTimer := None\<rparr>) (clearTimeout win h w)
                else w)"
proof (cases t)
  case None
  then show ?thesis by (simp add: frame_refl)
next
  case (Some h)
  then show ?thesis
    using frame_trans [OF frame_clearTimeout frame_modCore_isMouseUsedTimer]
    by (simp add: frame_refl)
qed

lemma frame_scheduleDismiss: "frame w (KeyborgCore_scheduleDismiss a w)"
proof (cases "map_of (cores w) a")
  case None
  then show ?thesis by (simp add: KeyborgCore_scheduleDismiss_def frame_refl)
next
  case (Some kc)
  show ?thesis
  proof (cases "core_win kc")
    case None
    with Some show ?thesis by (simp add: KeyborgCore_scheduleDismiss_def frame_refl)
  next
    case (Some win)
    define w1 where "w1 = (case dismissTimer kc of
                            None \<Rightarrow> w
                          | Some h \<Rightarrow>
                              if h \<noteq> 0
                              then modCore a (\<lambda>c. c\<lparr>dismissTimer := None\<rparr>) (clearTimeout win h w)
                              else w)"
    define st where "st = setTimeout win (DismissTimeout a win (activeElement (getWin w1 win))) dismissTimeout w1"
    have "frame w w1" unfolding w1_def by (rule frame_clear_dismissTimer)
    moreover have "frame w1 (snd st)" unfolding st_def by (rule frame_setTimeout)
    moreover have "frame (snd st) (modCore a (\<lambda>c. c\<lparr>dismissTimer := Some (fst st)\<rparr>) (snd st))"
      by (rule frame_modCore_dismissTimer)
    ultimately have "frame w (modCore a (\<lambda>c. c\<lparr>dismissTimer := Some (fst st)\<rparr>) (snd st))"
      by (blast intro: frame_trans)
    moreover have "KeyborgCore_scheduleDismiss a w = modCore a (\<lambda>c. c\<lparr>dismissTimer := Some (fst st)\<rparr>) (snd st)"
      using \<open>map_of (cores w) a = Some kc\<close> Some
      by (simp add: KeyborgCore_scheduleDismiss_def Let_def split_beta st_def w1_def)
    ultimately show ?thesis by simp
  qed
qed

lemma frame_onKeyDown:
  assumes "KeyborgCore_onKeyDown a e w = Inr (w', effs)"
  shows "frame w w'"
  using assms
  by (auto simp: KeyborgCore_onKeyDown_def Let_def split: option.splits if_splits
      intro: frame_refl frame_setVal frame_scheduleDismiss)

lemma frame_onFocusIn:
  assumes "KeyborgCore_onFocusIn a e w = Inr (w', effs)"
  shows "frame w w'"
  using assms
  by (auto simp: KeyborgCore_onFocusIn_def split: option.splits if_splits
      intro: frame_refl frame_setVal)

lemma frame_onMouseDown:
  assumes "KeyborgCore_onMouseDown a e w = Inr (w', effs)"
  shows "frame w w'"
proof (cases "map_of (cores w) a")
  case None
  with assms show ?thesis by (simp add: KeyborgCore_onMouseDown_def frame_refl)
next
  case (Some kc)
  show ?thesis
  proof (cases "buttons e = 0 \<or> (clientX e = 0 \<and> clientY e = 0 \<and> screenX e = 0 \<and> screenY e = 0)")
    case True
    with assms Some show ?thesis by (auto simp: KeyborgCore_onMouseDown_def frame_refl)
  next
    case False
    define w3 where "w3 = (case core_win kc of
                         None \<Rightarrow> w
                       | Some win \<Rightarrow>
                           (let w1 = (case isMouseUsedTimer kc of
                                        None \<Rightarrow> w
                                      | Some h \<Rightarrow> if h \<noteq> 0 then clearTimeout win h w else w);
                                (h', w2) = setTimeout win (MouseUsedTimeout a) 1000 w1
                            in modCore a (\<lambda>c. c\<lparr>isMouseUsedTimer := Some h'\<rparr>) w2))"
    have "frame w w3"
    proof (cases "core_win kc")
      case None
      then show ?thesis by (simp add: w3_def frame_refl)
    next
      case (Some win)
      define w1 where "w1 = (case isMouseUsedTimer kc of
                                        None \<Rightarrow> w
                                      | Some h \<Rightarrow> if h \<noteq> 0 then clearTimeout win h w else w)"
      define st where "st = setTimeout win (MouseUsedTimeout a) 1000 w1"
      have "frame w w1"
        unfolding w1_def by (simp add: frame_refl frame_clearTimeout split: option.splits)
      moreover have "frame w1 (snd st)" unfolding st_def by (rule frame_setTimeout)
      moreover have "frame (snd st) (modCore a (\<lambda>c. c\<lparr>isMouseUsedTimer := Some (fst st)\<rparr>) (snd st))"
        by (rule frame_modCore_isMouseUsedTimer)
      ultimately have "frame w (modCore a (\<lambda>c. c\<lparr>isMouseUsedTimer := Some (fst st)\<rparr>) (snd st))"
        by (blast intro: frame_trans)
      moreover have "w3 = modCore a (\<lambda>c. c\<lparr>isMouseUsedTimer := Some (fst st)\<rparr>) (snd st)"
        using Some by (simp add: w3_def Let_def split_beta st_def w1_def)
      ultimately show ?thesis by simp
    qed
    moreover from assms Some False have "KeyborgState_setVal False w3 = Inr (w', effs)"
      by (simp add: KeyborgCore_onMouseDown_def w3_def)
    ultimately show ?thesis by (blast intro: frame_trans frame_setVal)
  qed
qed

lemma frame_runTimer:
  assumes "runTimer f w = Inr (w', effs)"
  shows "frame w w'"
proof (cases f)
  case (MouseUsedTimeout a)
  with assms show ?thesis by (auto intro: frame_modCore_isMouseUsedTimer)
next
  case (DismissTimeout a win was)
  with assms show ?thesis
    by (auto simp: Let_def split: if_splits
        intro: frame_modCore_dismissTimer frame_trans [OF frame_modCore_dismissTimer frame_setVal])
qed

lemma frame_fireTimer:
  assumes "fireTimer win h w = Inr (w', effs)"
  shows "frame w w'"
  using assms
  by (auto simp: fireTimer_def split: option.splits if_splits
      intro: frame_refl frame_trans [OF frame_clearTimeout frame_runTimer])

lemma frame_subscribe: "frame w (Keyborg_subscribe a f w)"
  unfolding Keyborg_subscribe_def by (rule frame_modKeyborg) simp_all

lemma frame_unsubscribe: "frame w (Keyborg_unsubscribe a f w)"
  unfolding Keyborg_unsubscribe_def by (rule frame_modKeyborg) simp_all

lemma frame_focus: "frame w (putWin win ((getWin w win)\<lparr>activeElement := el\<rparr>) w)"
  by (rule frame_putWin) simp_all

subsection \<open>Creating a handle\<close>

lemma getWin_update_other [simp]:
  "getWin (w\<lparr>lastId := n\<rparr>) win = getWin w win"
  "getWin (w\<lparr>cores := cs\<rparr>) win = getWin w win"
  "getWin (w\<lparr>keyborgs := ks\<rparr>) win = getWin w win"
  "getWin (w\<lparr>state := s\<rparr>) win = getWin w win"
  "getWin (w\<lparr>now := t\<rparr>) win = getWin w win"
  by (simp_all add: getWin_def)

lemma create_existing:
  assumes "keyborg (getWin w win) = Some current" and "createKeyborg win props w = (a, w')"
  shows "a = lastId w + 1 \<and> lastId w' = lastId w + 1 \<and> cores w' = cores w \<and> state w' = state w \<and>
     now w' = now w \<and>
     map_of (keyborgs w') = (map_of (keyborgs w))(a \<mapsto>
        \<lparr>kb_id = ''k'' @ string_of_nat a, kb_win = Some win, kb_core = Some (core current), kb_cb = []\<rparr>) \<and>
     getWin w' = (getWin w)(win := (getWin w win)\<lparr>keyborg :=
        Some (current\<lparr>refs := AList.update (''k'' @ string_of_nat a) a (refs current)\<rparr>)\<rparr>)"
  using assms
  by (auto simp: createKeyborg_def new_Keyborg_def Let_def AList.update_conv' fun_eq_iff)

lemma create_fresh:
  assumes "keyborg (getWin w win) = None" and "createKeyborg win props w = (a, w')"
  shows "a = lastId w + 1 \<and> lastId w' = lastId w + 2 \<and> now w' = now w \<and>
     (\<exists>kc. core_id kc = ''c'' @ string_of_nat (a + 1) \<and> core_win kc = Some win \<and>
        isMouseUsedTimer kc = None \<and> dismissTimer kc = None \<and>
        core_triggerKeys kc = (case props of None \<Rightarrow> None | Some p \<Rightarrow> keySet (triggerKeys p)) \<and>
        core_dismissKeys kc = (case props of None \<Rightarrow> None | Some p \<Rightarrow> keySet (dismissKeys p)) \<and>
        map_of (cores w') = (map_of (cores w))(a + 1 \<mapsto> kc) \<and>
        state w' = KeyborgState_add (a + 1) kc (state w)) \<and>
     map_of (keyborgs w') = (map_of (keyborgs w))(a \<mapsto>
        \<lparr>kb_id = ''k'' @ string_of_nat a, kb_win = Some win, kb_core = Some (a + 1), kb_cb = []\<rparr>) \<and>
     getWin w' = (getWin w)(win := (getWin w win)\<lparr>
        docListeners := addEventListener ''mousedown'' (a + 1)
                         (addEventListener KEYBORG_FOCUSIN (a + 1) (docListeners (getWin w win))),
        winListeners := addEventListener ''keydown'' (a + 1) (winListeners (getWin w win)),
        focusEvent := True,
        keyborg := Some \<lparr>core = a + 1, refs = [(''k'' @ string_of_nat a, a)]\<rparr>\<rparr>)"
  using assms
  by (auto simp: createKeyborg_def new_Keyborg_def new_KeyborgCore_def Let_def AList.update_conv'
      fun_eq_iff getWin_setupFocusEvent)

lemma wf_coreD:
  "wf_world w \<Longrightarrow> map_of (cores w) a = Some kc \<Longrightarrow> a \<le> lastId w \<and> core_id kc = ''c'' @ string_of_nat a"
  unfolding wf_world_def wf_ids_def by blast

lemma wf_keyborgD:
  "wf_world w \<Longrightarrow> map_of (keyborgs w) a = Some h \<Longrightarrow> a \<le> lastId w \<and> kb_id h = ''k'' @ string_of_nat a"
  unfolding wf_world_def wf_ids_def by blast

lemma wf_regD:
  "wf_world w \<Longrightarrow> map_of (keyborgCoreRefs (state w)) i = Some r \<Longrightarrow>
     r \<le> lastId w \<and> i = ''c'' @ string_of_nat r"
  unfolding wf_world_def wf_ids_def by blast

lemma wf_distinct: "wf_world w \<Longrightarrow> distinct (map fst (keyborgCoreRefs (state w)))"
  unfolding wf_world_def wf_ids_def by blast

lemma wf_windowD: "wf_world w \<Longrightarrow> wf_window w win"
  unfolding wf_world_def by blast

lemma wf_handleD:
  "wf_world w \<Longrightarrow> map_of (keyborgs w) a = Some h \<Longrightarrow> kb_win h = Some win \<Longrightarrow>
     \<exists>k. keyborg (getWin w win) = Some k \<and> map_of (refs k) (kb_id h) = Some a"
  unfolding wf_world_def wf_handles_def by blast

lemma wf_window_None:
  "wf_window w win \<Longrightarrow> keyborg (getWin w win) = None \<Longrightarrow>
     docListeners (getWin w win) = [] \<and> winListeners (getWin w win) = []"
  by (simp add: wf_window_def)

lemma wf_window_Some:
  assumes "wf_window w win" and "keyborg (getWin w win) = Some k"
  shows "refs k \<noteq> []"
    and "\<And>i ha. map_of (refs k) i = Some ha \<Longrightarrow>
           \<exists>h. map_of (keyborgs w) ha = Some h \<and> kb_id h = i \<and> kb_win h = Some win"
    and "\<exists>kc. map_of (cores w) (core k) = Some kc \<and> core_win kc = Some win \<and>
           map_of (keyborgCoreRefs (state w)) (core_id kc) = Some (core k)"
    and "docListeners (getWin w win) = [(KEYBORG_FOCUSIN, core k), (''mousedown'', core k)]"
    and "winListeners (getWin w win) = [(''keydown'', core k)]"
  using assms by (simp_all add: wf_window_def)

lemma wf_window_transfer:
  assumes wfw: "wf_window w win"
    and kb: "keyborg (getWin w' win) = keyborg (getWin w win)"
    and dl: "docListeners (getWin w' win) = docListeners (getWin w win)"
    and wl: "winListeners (getWin w' win) = winListeners (getWin w win)"
    and H: "\<And>b h. map_of (keyborgs w) b = Some h \<Longrightarrow> kb_win h = Some win \<Longrightarrow>
              \<exists>h'. map_of (keyborgs w') b = Some h' \<and> kb_id h' = kb_id h \<and> kb_win h' = Some win"
    and C: "\<And>b kc. map_of (cores w) b = Some kc \<Longrightarrow> core_win kc = Some win \<Longrightarrow>
              map_of (keyborgCoreRefs (state w)) (core_id kc) = Some b \<Longrightarrow>
              \<exists>kc'. map_of (cores w') b = Some kc' \<and> core_win kc' = Some win \<and>
                    map_of (keyborgCoreRefs (state w')) (core_id kc') = Some b"
  shows "wf_window w' win"
proof (cases "keyborg (getWin w win)")
  case None
  with wf_window_None [OF wfw None] show ?thesis
    by (simp add: wf_window_def kb dl wl)
next
  case (Some k)
  note s = wf_window_Some [OF wfw Some]
  have ent: "\<exists>h. map_of (keyborgs w') ha = Some h \<and> kb_id h = i \<and> kb_win h = Some win"
    if "map_of (refs k) i = Some ha" for i ha
  proof -
    from s(2) [OF that] obtain h where h: "map_of (keyborgs w) ha = Some h" "kb_id h = i" "kb_win h = Some win"
      by blast
    from H [OF h(1) h(3)] h(2) show ?thesis by auto
  qed
  from s(3) obtain kc where kc: "map_of (cores w) (core k) = Some kc" "core_win kc = Some win"
      "map_of (keyborgCoreRefs (state w)) (core_id kc) = Some (core k)" by blast
  from C [OF kc] have co: "\<exists>kc. map_of (cores w') (core k) = Some kc \<and> core_win kc = Some win \<and>
                map_of (keyborgCoreRefs (state w')) (core_id kc) = Some (core k)" .
  from Some s(1,4,5) ent co show ?thesis
    by (simp add: wf_window_def kb dl wl)
qed

lemma wf_initWorld: "wf_world initWorld"
  by (simp add: wf_world_def wf_ids_def wf_window_def wf_handles_def initWorld_def getWin_def newWindow_def)

lemma string_of_nat_eq_iff [simp]: "string_of_nat m = string_of_nat n \<longleftrightarrow> m = n"
  using string_of_nat_inj by auto

lemma wf_create_existing:
  assumes wfw: "wf_world w" and cur: "keyborg (getWin w win) = Some current"
    and cr: "createKeyborg win props w = (a, w')"
  shows "wf_world w'"
proof -
  define inst where "inst = \<lparr>kb_id = ''k'' @ string_of_nat a, kb_win = Some win,
     kb_core = Some (core current), kb_cb = []\<rparr>"
  define cur' where "cur' = current\<lparr>refs := AList.update (''k'' @ string_of_nat a) a (refs current)\<rparr>"
  from create_existing [OF cur cr]
  have a: "a = lastId w + 1" and l: "lastId w' = lastId w + 1" and c: "cores w' = cores w"
    and st: "state w' = state w"
    and kbs: "map_of (keyborgs w') = (map_of (keyborgs w))(a \<mapsto> inst)"
    and gw: "getWin w' = (getWin w)(win := (getWin w win)\<lparr>keyborg := Some cur'\<rparr>)"
    unfolding inst_def cur'_def by blast+
  have old: "map_of (keyborgs w') b = Some h" if "map_of (keyborgs w) b = Some h" for b h
  proof -
    from wf_keyborgD [OF wfw that] a have "b \<noteq> a" by simp
    with that show ?thesis by (simp add: kbs)
  qed
  have ids: "wf_ids w'"
    unfolding wf_ids_def
  proof (intro conjI allI impI)
    fix b kc assume "map_of (cores w') b = Some kc"
    with wf_coreD [OF wfw, of b kc] show "b \<le> lastId w'" and "core_id kc = ''c'' @ string_of_nat b"
      by (simp_all add: c l)
  next
    fix b h assume bh: "map_of (keyborgs w') b = Some h"
    show "b \<le> lastId w'" and "kb_id h = ''k'' @ string_of_nat b"
    proof -
      have "b \<le> lastId w' \<and> kb_id h = ''k'' @ string_of_nat b"
      proof (cases "b = a")
        case True
        with bh show ?thesis by (auto simp: kbs inst_def a l)
      next
        case False
        with bh wf_keyborgD [OF wfw, of b h] show ?thesis by (simp add: kbs l)
      qed
      then show "b \<le> lastId w'" and "kb_id h = ''k'' @ string_of_nat b" by simp_all
    qed
  next
    show "distinct (map fst (keyborgCoreRefs (state w')))"
      using wf_distinct [OF wfw] by (simp add: st)
  next
    fix i r assume "map_of (keyborgCoreRefs (state w')) i = Some r"
    with wf_regD [OF wfw, of i r] show "r \<le> lastId w'" and "i = ''c'' @ string_of_nat r"
      by (simp_all add: st l)
  qed
  have wins: "wf_window w' win'" for win'
  proof (cases "win' = win")
    case False
    show ?thesis
    proof (rule wf_window_transfer [OF wf_windowD [OF wfw]])
      show "keyborg (getWin w' win') = keyborg (getWin w win')" using False by (simp add: gw)
      show "docListeners (getWin w' win') = docListeners (getWin w win')" using False by (simp add: gw)
      show "winListeners (getWin w' win') = winListeners (getWin w win')" using False by (simp add: gw)
      show "\<exists>h'. map_of (keyborgs w') b = Some h' \<and> kb_id h' = kb_id h \<and> kb_win h' = Some win'"
        if "map_of (keyborgs w) b = Some h" "kb_win h = Some win'" for b h
        using old [OF that(1)] that(2) by simp
      show "\<exists>kc'. map_of (cores w') b = Some kc' \<and> core_win kc' = Some win' \<and>
                    map_of (keyborgCoreRefs (state w')) (core_id kc') = Some b"
        if "map_of (cores w) b = Some kc" "core_win kc = Some win'"
          "map_of (keyborgCoreRefs (state w)) (core_id kc) = Some b" for b kc
        using that by (simp add: c st)
    qed
  next
    case True
    note s = wf_window_Some [OF wf_windowD [OF wfw] cur]
    have ent: "\<exists>h. map_of (keyborgs w') ha = Some h \<and> kb_id h = i \<and> kb_win h = Some win"
      if "map_of (refs cur') i = Some ha" for i ha
    proof (cases "i = ''k'' @ string_of_nat a")
      case True
      with that have "ha = a" by (simp add: cur'_def AList.update_conv')
      with True show ?thesis by (simp add: kbs inst_def)
    next
      case False
      with that have "map_of (refs current) i = Some ha" by (simp add: cur'_def AList.update_conv')
      from s(2) [OF this] obtain h where "map_of (keyborgs w) ha = Some h" "kb_id h = i" "kb_win h = Some win"
        by blast
      with old [of ha h] show ?thesis by simp
    qed
    have "refs cur' \<noteq> []" by (simp add: cur'_def)
    moreover have "core cur' = core current" by (simp add: cur'_def)
    ultimately show ?thesis
      using s(3,4,5) ent True by (simp add: wf_window_def gw c st)
  qed
  have hs: "wf_handles w'"
    unfolding wf_handles_def
  proof (intro allI impI)
    fix b h win' assume bh: "map_of (keyborgs w') b = Some h" "kb_win h = Some win'"
    show "\<exists>k. keyborg (getWin w' win') = Some k \<and> map_of (refs k) (kb_id h) = Some b"
    proof (cases "b = a")
      case True
      with bh have "h = inst" by (simp add: kbs)
      with bh True show ?thesis by (simp add: inst_def gw cur'_def AList.update_conv')
    next
      case False
      with bh have h: "map_of (keyborgs w) b = Some h" by (simp add: kbs)
      from wf_handleD [OF wfw h bh(2)] obtain k
        where k: "keyborg (getWin w win') = Some k" "map_of (refs k) (kb_id h) = Some b" by blast
      show ?thesis
      proof (cases "win' = win")
        case True
        with k cur have "k = current" by simp
        moreover from wf_keyborgD [OF wfw h] False have "kb_id h \<noteq> ''k'' @ string_of_nat a"
          by simp
        ultimately show ?thesis using k True by (simp add: gw cur'_def AList.update_conv')
      next
        case False
        with k show ?thesis by (simp add: gw)
      qed
    qed
  qed
  from ids wins hs show ?thesis by (simp add: wf_world_def)
qed

lemma addEventListener_fresh:
  "addEventListener ''mousedown'' c (addEventListener KEYBORG_FOCUSIN c []) =
     [(KEYBORG_FOCUSIN, c), (''mousedown'', c)]"
  "addEventListener ''keydown'' c [] = [(''keydown'', c)]"
  by (simp_all add: addEventListener_def KEYBORG_FOCUSIN_def)

lemma wf_create_fresh:
  assumes wfw: "wf_world w" and cur: "keyborg (getWin w win) = None"
    and cr: "createKeyborg win props w = (a, w')"
  shows "wf_world w'"
proof -
  define inst where "inst = \<lparr>kb_id = ''k'' @ string_of_nat a, kb_win = Some win,
     kb_core = Some (a + 1), kb_cb = []\<rparr>"
  define k' where "k' = \<lparr>core = a + 1, refs = [(''k'' @ string_of_nat a, a)]\<rparr>"
  note ls = wf_window_None [OF wf_windowD [OF wfw] cur]
  from create_fresh [OF cur cr] obtain kc
    where a: "a = lastId w + 1" and l: "lastId w' = lastId w + 2"
      and kc: "core_id kc = ''c'' @ string_of_nat (a + 1)" "core_win kc = Some win"
      and cs: "map_of (cores w') = (map_of (cores w))(a + 1 \<mapsto> kc)"
      and st: "state w' = KeyborgState_add (a + 1) kc (state w)"
      and kbs: "map_of (keyborgs w') = (map_of (keyborgs w))(a \<mapsto> inst)"
      and gw0: "getWin w' = (getWin w)(win := (getWin w win)\<lparr>
        docListeners := addEventListener ''mousedown'' (a + 1)
                         (addEventListener KEYBORG_FOCUSIN (a + 1) (docListeners (getWin w win))),
        winListeners := addEventListener ''keydown'' (a + 1) (winListeners (getWin w win)),
        focusEvent := True,
        keyborg := Some k'\<rparr>)"
    unfolding inst_def k'_def by blast
  from gw0 ls have gw: "getWin w' = (getWin w)(win := (getWin w win)\<lparr>
        docListeners := [(KEYBORG_FOCUSIN, a + 1), (''mousedown'', a + 1)],
        winListeners := [(''keydown'', a + 1)],
        focusEvent := True,
        keyborg := Some k'\<rparr>)"
    by (simp add: addEventListener_fresh)
  have fresh: "map_of (keyborgCoreRefs (state w)) (core_id kc) = None"
  proof (cases "map_of (keyborgCoreRefs (state w)) (core_id kc)")
    case None
    then show ?thesis .
  next
    case (Some r)
    from wf_regD [OF wfw Some] have "r \<le> lastId w" and "core_id kc = ''c'' @ string_of_nat r"
      by simp_all
    with kc(1) a have False by auto
    then show ?thesis ..
  qed
  then have reg: "map_of (keyborgCoreRefs (state w')) = (map_of (keyborgCoreRefs (state w)))(core_id kc \<mapsto> a + 1)"
    and dist: "distinct (map fst (keyborgCoreRefs (state w')))"
    using wf_distinct [OF wfw]
    by (simp_all add: st KeyborgState_add_def Let_def AList.update_conv' AList.distinct_update)
  have oldh: "map_of (keyborgs w') b = Some h" if "map_of (keyborgs w) b = Some h" for b h
  proof -
    from wf_keyborgD [OF wfw that] a have "b \<noteq> a" by simp
    with that show ?thesis by (simp add: kbs)
  qed
  have oldc: "map_of (cores w') b = Some c" if "map_of (cores w) b = Some c" for b c
  proof -
    from wf_coreD [OF wfw that] a have "b \<noteq> a + 1" by simp
    with that show ?thesis by (simp add: cs)
  qed
  have oldr: "map_of (keyborgCoreRefs (state w')) i = Some r"
    if "map_of (keyborgCoreRefs (state w)) i = Some r" for i r
  proof -
    from that fresh have "i \<noteq> core_id kc" by auto
    with that show ?thesis by (simp add: reg)
  qed
  have ids: "wf_ids w'"
    unfolding wf_ids_def
  proof (intro conjI allI impI)
    fix b c assume bc: "map_of (cores w') b = Some c"
    have "b \<le> lastId w' \<and> core_id c = ''c'' @ string_of_nat b"
    proof (cases "b = a + 1")
      case True
      with bc kc a show ?thesis by (auto simp: cs l)
    next
      case False
      with bc wf_coreD [OF wfw, of b c] show ?thesis by (simp add: cs l)
    qed
    then show "b \<le> lastId w'" and "core_id c = ''c'' @ string_of_nat b" by simp_all
  next
    fix b h assume bh: "map_of (keyborgs w') b = Some h"
    have "b \<le> lastId w' \<and> kb_id h = ''k'' @ string_of_nat b"
    proof (cases "b = a")
      case True
      with bh show ?thesis by (auto simp: kbs inst_def a l)
    next
      case False
      with bh wf_keyborgD [OF wfw, of b h] show ?thesis by (simp add: kbs l)
    qed
    then show "b \<le> lastId w'" and "kb_id h = ''k'' @ string_of_nat b" by simp_all
  next
    show "distinct (map fst (keyborgCoreRefs (state w')))" by (rule dist)
  next
    fix i r assume ir: "map_of (keyborgCoreRefs (state w')) i = Some r"
    have "r \<le> lastId w' \<and> i = ''c'' @ string_of_nat r"
    proof (cases "i = core_id kc")
      case True
      with ir kc a show ?thesis by (auto simp: reg l)
    next
      case False
      with ir wf_regD [OF wfw, of i r] show ?thesis by (simp add: reg l)
    qed
    then show "r \<le> lastId w'" and "i = ''c'' @ string_of_nat r" by simp_all
  qed
  have wins: "wf_window w' win'" for win'
  proof (cases "win' = win")
    case False
    show ?thesis
    proof (rule wf_window_transfer [OF wf_windowD [OF wfw]])
      show "keyborg (getWin w' win') = keyborg (getWin w win')" using False by (simp add: gw)
      show "docListeners (getWin w' win') = docListeners (getWin w win')" using False by (simp add: gw)
      show "winListeners (getWin w' win') = winListeners (getWin w win')" using False by (simp add: gw)
      show "\<exists>h'. map_of (keyborgs w') b = Some h' \<and> kb_id h' = kb_id h \<and> kb_win h' = Some win'"
        if "map_of (keyborgs w) b = Some h" "kb_win h = Some win'" for b h
        using oldh [OF that(1)] that(2) by simp
      show "\<exists>kc'. map_of (cores w') b = Some kc' \<and> core_win kc' = Some win' \<and>
                    map_of (keyborgCoreRefs (state w')) (core_id kc') = Some b"
        if "map_of (cores w) b = Some c" "core_win c = Some win'"
          "map_of (keyborgCoreRefs (state w)) (core_id c) = Some b" for b c
        using oldc [OF that(1)] that(2) oldr [OF that(3)] by simp
    qed
  next
    case True
    have "map_of (keyborgs w') a = Some inst" by (simp add: kbs)
    moreover have "map_of (cores w') (a + 1) = Some kc" by (simp add: cs)
    moreover have "map_of (keyborgCoreRefs (state w')) (core_id kc) = Some (a + 1)" by (simp add: reg)
    ultimately show ?thesis
      using True kc(2) by (simp add: wf_window_def gw k'_def inst_def)
  qed
  have hs: "wf_handles w'"
    unfolding wf_handles_def
  proof (intro allI impI)
    fix b h win' assume bh: "map_of (keyborgs w') b = Some h" "kb_win h = Some win'"
    show "\<exists>k. keyborg (getWin w' win') = Some k \<and> map_of (refs k) (kb_id h) = Some b"
    proof (cases "b = a")
      case True
      with bh have "h = inst" by (simp add: kbs)
      with bh True show ?thesis by (simp add: inst_def gw k'_def)
    next
      case False
      with bh have h: "map_of (keyborgs w) b = Some h" by (simp add: kbs)
      from wf_handleD [OF wfw h bh(2)] obtain k
        where k: "keyborg (getWin w win') = Some k" "map_of (refs k) (kb_id h) = Some b" by blast
      with cur have "win' \<noteq> win" by auto
      with k show ?thesis by (simp add: gw)
    qed
  qed
  from ids wins hs show ?thesis by (simp add: wf_world_def)
qed

lemma wf_create:
  assumes "wf_world w" and "createKeyborg win props w = (a, w')"
  shows "wf_world w'"
  using assms wf_create_existing wf_create_fresh
  by (cases "keyborg (getWin w win)") blast+

subsection \<open>Disposing of a handle\<close>

lemma removeEventListener_all:
  "removeEventListener ''mousedown'' c
     (removeEventListener KEYBORG_FOCUSIN c [(KEYBORG_FOCUSIN, c), (''mousedown'', c)]) = []"
  "removeEventListener ''keydown'' c [(''keydown'', c)] = []"
  by (simp_all add: removeEventListener_def KEYBORG_FOCUSIN_def)

lemma KeyborgCore_dispose_props:
  assumes "map_of (cores w) c = Some kc" and "core_win kc = Some win"
  shows "lastId (KeyborgCore_dispose c w) = lastId w \<and>
     keyborgs (KeyborgCore_dispose c w) = keyborgs w \<and>
     now (KeyborgCore_dispose c w) = now w \<and>
     state (KeyborgCore_dispose c w) = KeyborgState_remove (core_id kc) (state w) \<and>
     (\<exists>kc'. map_of (cores (KeyborgCore_dispose c w)) c = Some kc' \<and> core_id kc' = core_id kc \<and>
        core_win kc' = None) \<and>
     (\<forall>b. b \<noteq> c \<longrightarrow> map_of (cores (KeyborgCore_dispose c w)) b = map_of (cores w) b) \<and>
     (\<forall>win'. win' \<noteq> win \<longrightarrow> getWin (KeyborgCore_dispose c w) win' = getWin w win') \<and>
     keyborg (getWin (KeyborgCore_dispose c w) win) = keyborg (getWin w win) \<and>
     activeElement (getWin (KeyborgCore_dispose c w) win) = activeElement (getWin w win) \<and>
     docListeners (getWin (KeyborgCore_dispose c w) win) =
       removeEventListener ''mousedown'' c
         (removeEventListener KEYBORG_FOCUSIN c (docListeners (getWin w win))) \<and>
     winListeners (getWin (KeyborgCore_dispose c w) win) =
       removeEventListener ''keydown'' c (winListeners (getWin w win)) \<and>
     focusEvent (getWin (KeyborgCore_dispose c w) win) = False"
  using assms
  by (auto simp: KeyborgCore_dispose_def Let_def getWin_clearTimeout getWin_disposeFocusEvent
      split: option.splits)

lemma dispose_misuse:
  assumes "map_of (keyborgs w) a = Some this"
    and "kb_win this = None \<or>
         (\<exists>win. kb_win this = Some win \<and>
            (keyborg (getWin w win) = None \<or>
             (\<exists>k. keyborg (getWin w win) = Some k \<and> map_of (refs k) (kb_id this) = None)))"
  shows "Keyborg_dispose dev a w =
     Inr (modKeyborg a (\<lambda>h. h\<lparr>kb_cb := [], kb_core := None, kb_win := None\<rparr>) w,
          disposedIncorrectly dev this)"
  using assms by (auto simp: Keyborg_dispose_def Let_def)

lemma dispose_shared:
  assumes "map_of (keyborgs w) a = Some this" and "kb_win this = Some win"
    and "keyborg (getWin w win) = Some k" and "map_of (refs k) (kb_id this) \<noteq> None"
    and "AList.delete (kb_id this) (refs k) \<noteq> []"
  shows "Keyborg_dispose dev a w =
     Inr (modKeyborg a (\<lambda>h. h\<lparr>kb_cb := [], kb_core := None, kb_win := None\<rparr>)
            (putWin win ((getWin w win)\<lparr>keyborg :=
               Some (k\<lparr>refs := AList.delete (kb_id this) (refs k)\<rparr>)\<rparr>) w), [])"
  using assms by (auto simp: Keyborg_dispose_def Let_def)

lemma dispose_last:
  assumes "map_of (keyborgs w) a = Some this" and "kb_win this = Some win"
    and "keyborg (getWin w win) = Some k" and "map_of (refs k) (kb_id this) \<noteq> None"
    and "AList.delete (kb_id this) (refs k) = []"
  shows "Keyborg_dispose dev a w =
     Inr (modKeyborg a (\<lambda>h. h\<lparr>kb_cb := [], kb_core := None, kb_win := None\<rparr>)
            (putWin win
               ((getWin (KeyborgCore_dispose (core k)
                    (putWin win ((getWin w win)\<lparr>keyborg := Some (k\<lparr>refs := []\<rparr>)\<rparr>) w)) win)
                  \<lparr>keyborg := None\<rparr>)
               (KeyborgCore_dispose (core k)
                    (putWin win ((getWin w win)\<lparr>keyborg := Some (k\<lparr>refs := []\<rparr>)\<rparr>) w))), [])"
  using assms by (auto simp: Keyborg_dispose_def Let_def)

lemma dispose_never_throws: "\<exists>w' effs. Keyborg_dispose dev a w = Inr (w', effs)"
  by (auto simp: Keyborg_dispose_def Let_def split: option.splits)

lemma wf_dispose_misuse:
  assumes wfw: "wf_world w" and hd: "map_of (keyborgs w) a = Some this"
    and mis: "kb_win this = None \<or>
         (\<exists>win. kb_win this = Some win \<and>
            (keyborg (getWin w win) = None \<or>
             (\<exists>k. keyborg (getWin w win) = Some k \<and> map_of (refs k) (kb_id this) = None)))"
  shows "frame w (modKeyborg a (\<lambda>h. h\<lparr>kb_cb := [], kb_core := None, kb_win := None\<rparr>) w)"
proof -
  have none: "kb_win this = None"
  proof (cases "kb_win this")
    case None
    then show ?thesis .
  next
    case (Some win)
    from wf_handleD [OF wfw hd Some] mis Some have False by auto
    then show ?thesis ..
  qed
  show ?thesis
  proof (rule frameI)
    show "map_option (\<lambda>h. (kb_id h, kb_win h))
            (map_of (keyborgs (modKeyborg a (\<lambda>h. h\<lparr>kb_cb := [], kb_core := None, kb_win := None\<rparr>) w)) b)
          = map_option (\<lambda>h. (kb_id h, kb_win h)) (map_of (keyborgs w) b)" for b
      using hd none by simp
  qed simp_all
qed

lemma wf_dispose_shared:
  assumes wfw: "wf_world w" and hd: "map_of (keyborgs w) a = Some this"
    and win: "kb_win this = Some win" and k: "keyborg (getWin w win) = Some k"
    and ne: "AList.delete (kb_id this) (refs k) \<noteq> []"
    and w': "w' = modKeyborg a (\<lambda>h. h\<lparr>kb_cb := [], kb_core := None, kb_win := None\<rparr>)
            (putWin win ((getWin w win)\<lparr>keyborg :=
               Some (k\<lparr>refs := AList.delete (kb_id this) (refs k)\<rparr>)\<rparr>) w)"
  shows "wf_world w'"
proof -
  define k' where "k' = k\<lparr>refs := AList.delete (kb_id this) (refs k)\<rparr>"
  have l: "lastId w' = lastId w" and c: "cores w' = cores w" and st: "state w' = state w"
    by (simp_all add: w')
  have gw: "getWin w' win' = (if win' = win then (getWin w win)\<lparr>keyborg := Some k'\<rparr> else getWin w win')"
    for win'
    by (simp add: w' k'_def)
  have kbs: "map_of (keyborgs w') b =
      (if b = a then Some (this\<lparr>kb_cb := [], kb_core := None, kb_win := None\<rparr>)
       else map_of (keyborgs w) b)" for b
    using hd by (simp add: w')
  from wf_handleD [OF wfw hd win] k have ia: "map_of (refs k) (kb_id this) = Some a" by simp
  have other: "kb_id h \<noteq> kb_id this"
    if "map_of (keyborgs w) b = Some h" "kb_win h = Some win" "b \<noteq> a" for b h
  proof
    assume "kb_id h = kb_id this"
    moreover from wf_handleD [OF wfw that(1,2)] k have "map_of (refs k) (kb_id h) = Some b" by simp
    ultimately show False using ia that(3) by simp
  qed
  have ids: "wf_ids w'"
    unfolding wf_ids_def
  proof (intro conjI allI impI)
    fix b kc assume "map_of (cores w') b = Some kc"
    with wf_coreD [OF wfw, of b kc] show "b \<le> lastId w'" and "core_id kc = ''c'' @ string_of_nat b"
      by (simp_all add: c l)
  next
    fix b h assume bh: "map_of (keyborgs w') b = Some h"
    have "b \<le> lastId w' \<and> kb_id h = ''k'' @ string_of_nat b"
    proof (cases "b = a")
      case True
      with bh wf_keyborgD [OF wfw hd] show ?thesis by (auto simp: kbs l)
    next
      case False
      with bh wf_keyborgD [OF wfw, of b h] show ?thesis by (simp add: kbs l)
    qed
    then show "b \<le> lastId w'" and "kb_id h = ''k'' @ string_of_nat b" by simp_all
  next
    show "distinct (map fst (keyborgCoreRefs (state w')))"
      using wf_distinct [OF wfw] by (simp add: st)
  next
    fix i r assume "map_of (keyborgCoreRefs (state w')) i = Some r"
    with wf_regD [OF wfw, of i r] show "r \<le> lastId w'" and "i = ''c'' @ string_of_nat r"
      by (simp_all add: st l)
  qed
  have wins: "wf_window w' win'" for win'
  proof (cases "win' = win")
    case False
    show ?thesis
    proof (rule wf_window_transfer [OF wf_windowD [OF wfw]])
      show "keyborg (getWin w' win') = keyborg (getWin w win')" using False by (simp add: gw)
      show "docListeners (getWin w' win') = docListeners (getWin w win')" using False by (simp add: gw)
      show "winListeners (getWin w' win') = winListeners (getWin w win')" using False by (simp add: gw)
      show "\<exists>h'. map_of (keyborgs w') b = Some h' \<and> kb_id h' = kb_id h \<and> kb_win h' = Some win'"
        if "map_of (keyborgs w) b = Some h" "kb_win h = Some win'" for b h
      proof -
        from that hd win False have "b \<noteq> a" by auto
        with that show ?thesis by (simp add: kbs)
      qed
      show "\<exists>kc'. map_of (cores w') b = Some kc' \<and> core_win kc' = Some win' \<and>
                    map_of (keyborgCoreRefs (state w')) (core_id kc') = Some b"
        if "map_of (cores w) b = Some kc" "core_win kc = Some win'"
          "map_of (keyborgCoreRefs (state w)) (core_id kc) = Some b" for b kc
        using that by (simp add: c st)
    qed
  next
    case True
    note s = wf_window_Some [OF wf_windowD [OF wfw] k]
    have ent: "\<exists>h. map_of (keyborgs w') hb = Some h \<and> kb_id h = i \<and> kb_win h = Some win"
      if "map_of (refs k') i = Some hb" for i hb
    proof -
      from that have i: "i \<noteq> kb_id this" and "map_of (refs k) i = Some hb"
        by (auto simp: k'_def AList.delete_conv' split: if_splits)
      from s(2) [OF this(2)] obtain h
        where h: "map_of (keyborgs w) hb = Some h" "kb_id h = i" "kb_win h = Some win" by blast
      with i hd have "hb \<noteq> a" by auto
      with h show ?thesis by (simp add: kbs)
    qed
    have "refs k' \<noteq> []" using ne by (simp add: k'_def)
    moreover have "core k' = core k" by (simp add: k'_def)
    ultimately show ?thesis
      using s(3,4,5) ent True by (simp add: wf_window_def gw c st)
  qed
  have hs: "wf_handles w'"
    unfolding wf_handles_def
  proof (intro allI impI)
    fix b h win' assume bh: "map_of (keyborgs w') b = Some h" "kb_win h = Some win'"
    then have ba: "b \<noteq> a" by (auto simp: kbs split: if_splits)
    with bh have h: "map_of (keyborgs w) b = Some h" by (simp add: kbs)
    from wf_handleD [OF wfw h bh(2)] obtain k0
      where k0: "keyborg (getWin w win') = Some k0" "map_of (refs k0) (kb_id h) = Some b" by blast
    show "\<exists>k. keyborg (getWin w' win') = Some k \<and> map_of (refs k) (kb_id h) = Some b"
    proof (cases "win' = win")
      case True
      with k0 k have "k0 = k" by simp
      moreover from other [OF h _ ba] bh(2) True have "kb_id h \<noteq> kb_id this" by simp
      ultimately show ?thesis using k0 True by (simp add: gw k'_def AList.delete_conv')
    next
      case False
      with k0 show ?thesis by (simp add: gw)
    qed
  qed
  from ids wins hs show ?thesis by (simp add: wf_world_def)
qed

lemma wf_dispose_last:
  assumes wfw: "wf_world w" and hd: "map_of (keyborgs w) a = Some this"
    and win: "kb_win this = Some win" and k: "keyborg (getWin w win) = Some k"
    and emp: "AList.delete (kb_id this) (refs k) = []"
    and w1: "w1 = putWin win ((getWin w win)\<lparr>keyborg := Some (k\<lparr>refs := []\<rparr>)\<rparr>) w"
    and w2: "w2 = KeyborgCore_dispose (core k) w1"
    and w': "w' = modKeyborg a (\<lambda>h. h\<lparr>kb_cb := [], kb_core := None, kb_win := None\<rparr>)
            (putWin win ((getWin w2 win)\<lparr>keyborg := None\<rparr>) w2)"
  shows "wf_world w'"
proof -
  note s = wf_window_Some [OF wf_windowD [OF wfw] k]
  from s(3) obtain kc where kc: "map_of (cores w) (core k) = Some kc" "core_win kc = Some win"
      "map_of (keyborgCoreRefs (state w)) (core_id kc) = Some (core k)" by blast
  from kc(1) have kc1: "map_of (cores w1) (core k) = Some kc" by (simp add: w1)
  note p = KeyborgCore_dispose_props [OF kc1 kc(2), folded w2]
  from p obtain kc' where kc': "map_of (cores w2) (core k) = Some kc'" "core_id kc' = core_id kc"
      "core_win kc' = None" by blast
  from p have co2: "map_of (cores w2) b = map_of (cores w) b" if "b \<noteq> core k" for b
    using that by (simp add: w1)
  have l: "lastId w' = lastId w" using p by (simp add: w' w1)
  have st: "state w' = KeyborgState_remove (core_id kc) (state w)" using p by (simp add: w' w1)
  have cs: "map_of (cores w') b = (if b = core k then Some kc' else map_of (cores w) b)" for b
    using kc'(1) co2 [of b] by (simp add: w')
  have kbs: "map_of (keyborgs w') b =
      (if b = a then Some (this\<lparr>kb_cb := [], kb_core := None, kb_win := None\<rparr>)
       else map_of (keyborgs w) b)" for b
    using hd p by (simp add: w' w1)
  from p have gwo: "getWin w' win' = getWin w win'" if "win' \<noteq> win" for win'
    using that by (simp add: w' w1)
  from p s(4,5) have gww: "keyborg (getWin w' win) = None" "docListeners (getWin w' win) = []"
    "winListeners (getWin w' win) = []"
    by (simp_all add: w' w1 removeEventListener_all)
  from wf_handleD [OF wfw hd win] k have ia: "map_of (refs k) (kb_id this) = Some a" by simp
  have only: "b = a" if "map_of (keyborgs w) b = Some h" "kb_win h = Some win" for b h
  proof -
    from wf_handleD [OF wfw that] k have b: "map_of (refs k) (kb_id h) = Some b" by simp
    have "map_of (AList.delete (kb_id this) (refs k)) (kb_id h) = None" by (simp add: emp)
    with b have "kb_id h = kb_id this" by (simp add: AList.delete_conv' split: if_splits)
    with b ia show ?thesis by simp
  qed
  have reg: "map_of (keyborgCoreRefs (state w')) i =
      (if i = core_id kc then None else map_of (keyborgCoreRefs (state w)) i)" for i
    by (simp add: st AList.delete_conv')
  have ids: "wf_ids w'"
    unfolding wf_ids_def
  proof (intro conjI allI impI)
    fix b c assume bc: "map_of (cores w') b = Some c"
    have "b \<le> lastId w' \<and> core_id c = ''c'' @ string_of_nat b"
    proof (cases "b = core k")
      case True
      with bc kc' wf_coreD [OF wfw kc(1)] show ?thesis by (auto simp: cs l)
    next
      case False
      with bc wf_coreD [OF wfw, of b c] show ?thesis by (simp add: cs l)
    qed
    then show "b \<le> lastId w'" and "core_id c = ''c'' @ string_of_nat b" by simp_all
  next
    fix b h assume bh: "map_of (keyborgs w') b = Some h"
    have "b \<le> lastId w' \<and> kb_id h = ''k'' @ string_of_nat b"
    proof (cases "b = a")
      case True
      with bh wf_keyborgD [OF wfw hd] show ?thesis by (auto simp: kbs l)
    next
      case False
      with bh wf_keyborgD [OF wfw, of b h] show ?thesis by (simp add: kbs l)
    qed
    then show "b \<le> lastId w'" and "kb_id h = ''k'' @ string_of_nat b" by simp_all
  next
    show "distinct (map fst (keyborgCoreRefs (state w')))"
      using wf_distinct [OF wfw] by (simp add: st AList.distinct_delete)
  next
    fix i r assume "map_of (keyborgCoreRefs (state w')) i = Some r"
    then have "map_of (keyborgCoreRefs (state w)) i = Some r"
      by (simp add: reg split: if_splits)
    from wf_regD [OF wfw this] show "r \<le> lastId w'" and "i = ''c'' @ string_of_nat r"
      by (simp_all add: l)
  qed
  have wins: "wf_window w' win'" for win'
  proof (cases "win' = win")
    case True
    with gww show ?thesis by (simp add: wf_window_def)
  next
    case False
    show ?thesis
    proof (rule wf_window_transfer [OF wf_windowD [OF wfw]])
      show "keyborg (getWin w' win') = keyborg (getWin w win')" using False by (simp add: gwo)
      show "docListeners (getWin w' win') = docListeners (getWin w win')" using False by (simp add: gwo)
      show "winListeners (getWin w' win') = winListeners (getWin w win')" using False by (simp add: gwo)
      show "\<exists>h'. map_of (keyborgs w') b = Some h' \<and> kb_id h' = kb_id h \<and> kb_win h' = Some win'"
        if "map_of (keyborgs w) b = Some h" "kb_win h = Some win'" for b h
      proof -
        from that hd win False have "b \<noteq> a" by auto
        with that show ?thesis by (simp add: kbs)
      qed
      show "\<exists>c'. map_of (cores w') b = Some c' \<and> core_win c' = Some win' \<and>
                    map_of (keyborgCoreRefs (state w')) (core_id c') = Some b"
        if "map_of (cores w) b = Some c" "core_win c = Some win'"
          "map_of (keyborgCoreRefs (state w)) (core_id c) = Some b" for b c
      proof -
        from that(1,2) kc(1,2) False have b: "b \<noteq> core k" by auto
        with that(3) kc(3) have "core_id c \<noteq> core_id kc" by auto
        with b that show ?thesis by (simp add: cs reg)
      qed
    qed
  qed
  have hs: "wf_handles w'"
    unfolding wf_handles_def
  proof (intro allI impI)
    fix b h win' assume bh: "map_of (keyborgs w') b = Some h" "kb_win h = Some win'"
    then have ba: "b \<noteq> a" by (auto simp: kbs split: if_splits)
    with bh have h: "map_of (keyborgs w) b = Some h" by (simp add: kbs)
    from only [OF h] ba bh(2) have "win' \<noteq> win" by auto
    with wf_handleD [OF wfw h bh(2)]
    show "\<exists>k. keyborg (getWin w' win') = Some k \<and> map_of (refs k) (kb_id h) = Some b"
      by (simp add: gwo)
  qed
  from ids wins hs show ?thesis by (simp add: wf_world_def)
qed

lemma wf_dispose:
  assumes wfw: "wf_world w" and d: "Keyborg_dispose dev a w = Inr (w', effs)"
  shows "wf_world w'"
proof (cases "map_of (keyborgs w) a")
  case None
  with d wfw show ?thesis by (simp add: Keyborg_dispose_def)
next
  case (Some this)
  show ?thesis
  proof (cases "kb_win this = None \<or>
         (\<exists>win. kb_win this = Some win \<and>
            (keyborg (getWin w win) = None \<or>
             (\<exists>k. keyborg (getWin w win) = Some k \<and> map_of (refs k) (kb_id this) = None)))")
    case True
    from dispose_misuse [OF Some True, of dev] d wf_dispose_misuse [OF wfw Some True] wfw
    show ?thesis by (auto intro: wf_frame)
  next
    case False
    then obtain win k where win: "kb_win this = Some win" and k: "keyborg (getWin w win) = Some k"
      and i: "map_of (refs k) (kb_id this) \<noteq> None"
      by (cases "kb_win this") auto
    show ?thesis
    proof (cases "AList.delete (kb_id this) (refs k) = []")
      case True
      from dispose_last [OF Some win k i True, of dev] d
      show ?thesis by (auto intro: wf_dispose_last [OF wfw Some win k True refl refl])
    next
      case False
      from dispose_shared [OF Some win k i False, of dev] d
      show ?thesis by (auto intro: wf_dispose_shared [OF wfw Some win k False])
    qed
  qed
qed

subsection \<open>Discarding a window\<close>

lemma getWin_discardWindow:
  "getWin (discardWindow win w) win' = (if win' = win then newWindow else getWin w win')"
  by (simp add: discardWindow_def getWin_def AList.delete_conv')

lemma map_of_cores_discardWindow:
  "map_of (cores (discardWindow win w)) a =
     (case map_of (cores w) a of
        None \<Rightarrow> None
      | Some c \<Rightarrow> if core_win c = Some win then None else Some c)"
  by (auto simp: discardWindow_def AList.restr_conv' restrict_map_def split: option.splits)

lemma map_of_keyborgs_discardWindow:
  "map_of (keyborgs (discardWindow win w)) a =
     (case map_of (keyborgs w) a of
        None \<Rightarrow> None
      | Some h \<Rightarrow> if kb_win h = Some win then None else Some h)"
  by (auto simp: discardWindow_def AList.restr_conv' restrict_map_def split: option.splits)

lemma state_discardWindow [simp]: "state (discardWindow win w) = state w"
  and lastId_discardWindow [simp]: "lastId (discardWindow win w) = lastId w"
  by (simp_all add: discardWindow_def)

lemma wf_discard:
  assumes wfw: "wf_world w"
  shows "wf_world (discardWindow win w)"
proof -
  let ?w' = "discardWindow win w"
  have oldc: "map_of (cores w) a = Some c \<and> core_win c \<noteq> Some win"
    if "map_of (cores ?w') a = Some c" for a c
    using that by (auto simp: map_of_cores_discardWindow split: option.splits if_splits)
  have oldh: "map_of (keyborgs w) a = Some h \<and> kb_win h \<noteq> Some win"
    if "map_of (keyborgs ?w') a = Some h" for a h
    using that by (auto simp: map_of_keyborgs_discardWindow split: option.splits if_splits)
  have ids: "wf_ids ?w'"
    unfolding wf_ids_def
  proof (intro conjI allI impI)
    fix a c assume "map_of (cores ?w') a = Some c"
    with oldc have "map_of (cores w) a = Some c" by blast
    from wf_coreD [OF wfw this] show "a \<le> lastId ?w'" and "core_id c = ''c'' @ string_of_nat a"
      by simp_all
  next
    fix a h assume "map_of (keyborgs ?w') a = Some h"
    with oldh have "map_of (keyborgs w) a = Some h" by blast
    from wf_keyborgD [OF wfw this] show "a \<le> lastId ?w'" and "kb_id h = ''k'' @ string_of_nat a"
      by simp_all
  next
    show "distinct (map fst (keyborgCoreRefs (state ?w')))"
      using wf_distinct [OF wfw] by simp
  next
    fix i r assume "map_of (keyborgCoreRefs (state ?w')) i = Some r"
    then have "map_of (keyborgCoreRefs (state w)) i = Some r" by simp
    from wf_regD [OF wfw this] show "r \<le> lastId ?w'" and "i = ''c'' @ string_of_nat r"
      by simp_all
  qed
  have wins: "wf_window ?w' win'" for win'
  proof (cases "win' = win")
    case True
    then show ?thesis by (simp add: wf_window_def getWin_discardWindow newWindow_def)
  next
    case False
    show ?thesis
    proof (rule wf_window_transfer [OF wf_windowD [OF wfw]])
      show "keyborg (getWin ?w' win') = keyborg (getWin w win')"
        using False by (simp add: getWin_discardWindow)
      show "docListeners (getWin ?w' win') = docListeners (getWin w win')"
        using False by (simp add: getWin_discardWindow)
      show "winListeners (getWin ?w' win') = winListeners (getWin w win')"
        using False by (simp add: getWin_discardWindow)
      show "\<exists>h'. map_of (keyborgs ?w') b = Some h' \<and> kb_id h' = kb_id h \<and> kb_win h' = Some win'"
        if "map_of (keyborgs w) b = Some h" "kb_win h = Some win'" for b h
        using that False by (simp add: map_of_keyborgs_discardWindow)
      show "\<exists>c'. map_of (cores ?w') b = Some c' \<and> core_win c' = Some win' \<and>
                    map_of (keyborgCoreRefs (state ?w')) (core_id c') = Some b"
        if "map_of (cores w) b = Some c" "core_win c = Some win'"
          "map_of (keyborgCoreRefs (state w)) (core_id c) = Some b" for b c
        using that False by (simp add: map_of_cores_discardWindow)
    qed
  qed
  have hs: "wf_handles ?w'"
    unfolding wf_handles_def
  proof (intro allI impI)
    fix a h win' assume ah: "map_of (keyborgs ?w') a = Some h" "kb_win h = Some win'"
    from oldh [OF ah(1)] ah(2) have h: "map_of (keyborgs w) a = Some h" and "win' \<noteq> win"
      by auto
    with wf_handleD [OF wfw h ah(2)]
    show "\<exists>k. keyborg (getWin ?w' win') = Some k \<and> map_of (refs k) (kb_id h) = Some a"
      by (simp add: getWin_discardWindow)
  qed
  from ids wins hs show ?thesis by (simp add: wf_world_def)
qed

lemma timers_ok_discard:
  assumes "timers_ok w"
  shows "timers_ok (discardWindow win w)"
  using assms
  by (auto simp: timers_ok_def getWin_discardWindow newWindow_def)

subsection \<open>Every run keeps the store well-formed\<close>

lemma reachable_wf: "reachable w \<Longrightarrow> wf_world w"
proof (induction rule: reachable.induct)
  case init
  show ?case by (rule wf_initWorld)
next
  case (create w win props a w')
  then show ?case by (blast intro: wf_create)
next
  case (dispose w dev a w' effs)
  then show ?case by (auto simp: disposeKeyborg_def intro: wf_dispose)
next
  case (subscribe w a f)
  then show ?case by (blast intro: wf_frame frame_subscribe)
next
  case (unsubscribe w a f)
  then show ?case by (blast intro: wf_frame frame_unsubscribe)
next
  case (setVal w a v w' effs)
  then show ?case by (auto simp: Keyborg_setVal_def intro: wf_frame frame_setVal)
next
  case (focusin w a win fe w' effs)
  then show ?case by (blast intro: wf_frame frame_onFocusIn)
next
  case (mousedown w a win me w' effs)
  then show ?case by (blast intro: wf_frame frame_onMouseDown)
next
  case (keydown w a win ke w' effs)
  then show ?case by (blast intro: wf_frame frame_onKeyDown)
next
  case (timeout w win h w' effs)
  then show ?case by (blast intro: wf_frame frame_fireTimer)
next
  case (focus w win el)
  then show ?case by (blast intro: wf_frame frame_focus)
next
  case (tick w d)
  then show ?case by (blast intro: wf_frame frame_now)
next
  case (discard w win)
  then show ?case by (blast intro: wf_discard)
qed

subsection \<open>Timeout handles\<close>

lemma timers_monoI:
  assumes "\<And>win. lastTimer (getWin w win) \<le> lastTimer (getWin w' win)"
    and "\<And>win h. map_of (timers (getWin w' win)) h \<noteq> None \<Longrightarrow>
           map_of (timers (getWin w win)) h \<noteq> None \<or>
           (lastTimer (getWin w win) < h \<and> h \<le> lastTimer (getWin w' win))"
  shows "timers_mono w w'"
  unfolding timers_mono_def using assms by blast

lemma timers_mono_same:
  assumes "\<And>win. lastTimer (getWin w' win) = lastTimer (getWin w win)"
    and "\<And>win. timers (getWin w' win) = timers (getWin w win)"
  shows "timers_mono w w'"
  by (rule timers_monoI) (simp_all add: assms)

lemma timers_mono_refl: "timers_mono w w"
  by (rule timers_mono_same) simp_all

lemma timers_mono_trans:
  assumes "timers_mono w w'" and "timers_mono w' w''"
  shows "timers_mono w w''"
proof (rule timers_monoI)
  fix win
  from assms have a: "lastTimer (getWin w win) \<le> lastTimer (getWin w' win)"
    and b: "lastTimer (getWin w' win) \<le> lastTimer (getWin w'' win)"
    unfolding timers_mono_def by blast+
  then show "lastTimer (getWin w win) \<le> lastTimer (getWin w'' win)" by simp
  fix h assume "map_of (timers (getWin w'' win)) h \<noteq> None"
  with assms(2) have "map_of (timers (getWin w' win)) h \<noteq> None \<or>
           (lastTimer (getWin w' win) < h \<and> h \<le> lastTimer (getWin w'' win))"
    unfolding timers_mono_def by blast
  then show "map_of (timers (getWin w win)) h \<noteq> None \<or>
           (lastTimer (getWin w win) < h \<and> h \<le> lastTimer (getWin w'' win))"
  proof
    assume "map_of (timers (getWin w' win)) h \<noteq> None"
    with assms(1) have "map_of (timers (getWin w win)) h \<noteq> None \<or>
           (lastTimer (getWin w win) < h \<and> h \<le> lastTimer (getWin w' win))"
      unfolding timers_mono_def by blast
    with b show ?thesis by auto
  next
    assume "lastTimer (getWin w' win) < h \<and> h \<le> lastTimer (getWin w'' win)"
    with a show ?thesis by auto
  qed
qed

lemma timers_ok_mono:
  assumes "timers_ok w" and "timers_mono w w'"
  shows "timers_ok w'"
  unfolding timers_ok_def
proof (intro allI impI)
  fix win h assume "map_of (timers (getWin w' win)) h \<noteq> None"
  with assms(2) have c: "map_of (timers (getWin w win)) h \<noteq> None \<or>
           (lastTimer (getWin w win) < h \<and> h \<le> lastTimer (getWin w' win))"
    and le: "lastTimer (getWin w win) \<le> lastTimer (getWin w' win)"
    unfolding timers_mono_def by blast+
  from c show "h \<le> lastTimer (getWin w' win)"
  proof
    assume "map_of (timers (getWin w win)) h \<noteq> None"
    with assms(1) have "h \<le> lastTimer (getWin w win)" unfolding timers_ok_def by blast
    with le show ?thesis by simp
  qed simp
qed

lemma timers_mono_putWin:
  assumes "lastTimer x = lastTimer (getWin w win)" and "timers x = timers (getWin w win)"
  shows "timers_mono w (putWin win x w)"
  by (rule timers_mono_same) (simp_all add: assms)

lemma timers_mono_modCore: "timers_mono w (modCore a f w)"
  by (rule timers_mono_same) simp_all

lemma timers_mono_modKeyborg: "timers_mono w (modKeyborg a f w)"
  by (rule timers_mono_same) simp_all

lemma timers_mono_now: "timers_mono w (w\<lparr>now := t\<rparr>)"
  by (rule timers_mono_same) simp_all

lemma timers_mono_clearTimeout: "timers_mono w (clearTimeout win h w)"
  by (rule timers_monoI) (auto simp: getWin_clearTimeout AList.delete_conv' split: if_splits)

lemma timers_mono_setTimeout: "timers_mono w (snd (setTimeout win f d w))"
  by (rule timers_monoI) (auto simp: getWin_setTimeout split: if_splits)

lemma timers_mono_setupFocusEvent: "timers_mono w (setupFocusEvent win w)"
  unfolding setupFocusEvent_def by (rule timers_mono_putWin) simp_all

lemma timers_mono_disposeFocusEvent: "timers_mono w (disposeFocusEvent win w)"
  unfolding disposeFocusEvent_def by (rule timers_mono_putWin) simp_all

lemma timers_mono_setVal:
  assumes "KeyborgState_setVal v w = Inr (w', effs)"
  shows "timers_mono w w'"
proof (cases "isNavigatingWithKeyboard (state w) = v")
  case True
  with assms show ?thesis by (simp add: KeyborgState_setVal_def timers_mono_refl)
next
  case False
  with assms have "setVal_loop (map fst (keyborgCoreRefs (state w))) v
      (w\<lparr>state := (state w)\<lparr>isNavigatingWithKeyboard := v\<rparr>\<rparr>) = Inr (w', effs)"
    by (simp add: KeyborgState_setVal_def Let_def)
  from setVal_loop_same [OF this] have "windows w' = windows w" by simp
  then show ?thesis by (intro timers_mono_same) (simp_all add: getWin_def)
qed

lemma timers_mono_modCore_dismissTimer: "timers_mono u (modCore a (\<lambda>c. c\<lparr>dismissTimer := t\<rparr>) u)"
  by (rule timers_mono_modCore)

lemma timers_mono_modCore_isMouseUsedTimer: "timers_mono u (modCore a (\<lambda>c. c\<lparr>isMouseUsedTimer := t\<rparr>) u)"
  by (rule timers_mono_modCore)

lemma timers_mono_clear_dismissTimer:
  "timers_mono w (case t of
              None \<Rightarrow> w
            | Some h \<Rightarrow>
                if h \<noteq> 0
                then modCore a (\<lambda>c. c\<lparr>dismissTimer := None\<rparr>) (clearTimeout win h w)
                else w)"
proof (cases t)
  case None
  then show ?thesis by (simp add: timers_mono_refl)
next
  case (Some h)
  then show ?thesis
    using timers_mono_trans [OF timers_mono_clearTimeout timers_mono_modCore_dismissTimer]
    by (simp add: timers_mono_refl)
qed

lemma timers_mono_clear_isMouseUsedTimer:
  "timers_mono w (case t of
              None \<Rightarrow> w
            | Some h \<Rightarrow>
                if h \<noteq> 0
                then modCore a (\<lambda>c. c\<lparr>isMouseUsedTimer := None\<rparr>) (clearTimeout win h w)
                else w)"
proof (cases t)
  case None
  then show ?thesis by (simp add: timers_mono_refl)
next
  case (Some h)
  then show ?thesis
    using timers_mono_trans [OF timers_mono_clearTimeout timers_mono_modCore_isMouseUsedTimer]
    by (simp add: timers_mono_refl)
qed

lemma timers_mono_scheduleDismiss: "timers_mono w (KeyborgCore_scheduleDismiss a w)"
proof (cases "map_of (cores w) a")
  case None
  then show ?thesis by (simp add: KeyborgCore_scheduleDismiss_def timers_mono_refl)
next
  case (Some kc)
  show ?thesis
  proof (cases "core_win kc")
    case None
    with Some show ?thesis by (simp add: KeyborgCore_scheduleDismiss_def timers_mono_refl)
  next
    case (Some win)
    define w1 where "w1 = (case dismissTimer kc of
                            None \<Rightarrow> w
                          | Some h \<Rightarrow>
                              if h \<noteq> 0
                              then modCore a (\<lambda>c. c\<lparr>dismissTimer := None\<rparr>) (clearTimeout win h w)
                              else w)"
    define st where "st = setTimeout win (DismissTimeout a win (activeElement (getWin w1 win))) dismissTimeout w1"
    have "timers_mono w w1" unfolding w1_def by (rule timers_mono_clear_dismissTimer)
    moreover have "timers_mono w1 (snd st)" unfolding st_def by (rule timers_mono_setTimeout)
    moreover have "timers_mono (snd st) (modCore a (\<lambda>c. c\<lparr>dismissTimer := Some (fst st)\<rparr>) (snd st))"
      by (rule timers_mono_modCore_dismissTimer)
    ultimately have "timers_mono w (modCore a (\<lambda>c. c\<lparr>dismissTimer := Some (fst st)\<rparr>) (snd st))"
      by (blast intro: timers_mono_trans)
    moreover have "KeyborgCore_scheduleDismiss a w = modCore a (\<lambda>c. c\<lparr>dismissTimer := Some (fst st)\<rparr>) (snd st)"
      using \<open>map_of (cores w) a = Some kc\<close> Some
      by (simp add: KeyborgCore_scheduleDismiss_def Let_def split_beta st_def w1_def)
    ultimately show ?thesis by simp
  qed
qed

lemma timers_mono_onKeyDown:
  assumes "KeyborgCore_onKeyDown a e w = Inr (w', effs)"
  shows "timers_mono w w'"
  using assms
  by (auto simp: KeyborgCore_onKeyDown_def Let_def split: option.splits if_splits
      intro: timers_mono_refl timers_mono_setVal timers_mono_scheduleDismiss)

lemma timers_mono_onFocusIn:
  assumes "KeyborgCore_onFocusIn a e w = Inr (w', effs)"
  shows "timers_mono w w'"
  using assms
  by (auto simp: KeyborgCore_onFocusIn_def split: option.splits if_splits
      intro: timers_mono_refl timers_mono_setVal)

lemma timers_mono_onMouseDown:
  assumes "KeyborgCore_onMouseDown a e w = Inr (w', effs)"
  shows "timers_mono w w'"
proof (cases "map_of (cores w) a")
  case None
  with assms show ?thesis by (simp add: KeyborgCore_onMouseDown_def timers_mono_refl)
next
  case (Some kc)
  show ?thesis
  proof (cases "buttons e = 0 \<or> (clientX e = 0 \<and> clientY e = 0 \<and> screenX e = 0 \<and> screenY e = 0)")
    case True
    with assms Some show ?thesis by (auto simp: KeyborgCore_onMouseDown_def timers_mono_refl)
  next
    case False
    define w3 where "w3 = (case core_win kc of
                         None \<Rightarrow> w
                       | Some win \<Rightarrow>
                           (let w1 = (case isMouseUsedTimer kc of
                                        None \<Rightarrow> w
                                      | Some h \<Rightarrow> if h \<noteq> 0 then clearTimeout win h w else w);
                                (h', w2) = setTimeout win (MouseUsedTimeout a) 1000 w1
                            in modCore a (\<lambda>c. c\<lparr>isMouseUsedTimer := Some h'\<rparr>) w2))"
    have "timers_mono w w3"
    proof (cases "core_win kc")
      case None
      then show ?thesis by (simp add: w3_def timers_mono_refl)
    next
      case (Some win)
      define w1 where "w1 = (case isMouseUsedTimer kc of
                                        None \<Rightarrow> w
                                      | Some h \<Rightarrow> if h \<noteq> 0 then clearTimeout win h w else w)"
      define st where "st = setTimeout win (MouseUsedTimeout a) 1000 w1"
      have "timers_mono w w1"
        unfolding w1_def by (simp add: timers_mono_refl timers_mono_clearTimeout split: option.splits)
      moreover have "timers_mono w1 (snd st)" unfolding st_def by (rule timers_mono_setTimeout)
      moreover have "timers_mono (snd st) (modCore a (\<lambda>c. c\<lparr>isMouseUsedTimer := Some (fst st)\<rparr>) (snd st))"
        by (rule timers_mono_modCore_isMouseUsedTimer)
      ultimately have "timers_mono w (modCore a (\<lambda>c. c\<lparr>isMouseUsedTimer := Some (fst st)\<rparr>) (snd st))"
        by (blast intro: timers_mono_trans)
      moreover have "w3 = modCore a (\<lambda>c. c\<lparr>isMouseUsedTimer := Some (fst st)\<rparr>) (snd st)"
        using Some by (simp add: w3_def Let_def split_beta st_def w1_def)
      ultimately show ?thesis by simp
    qed
    moreover from assms Some False have "KeyborgState_setVal False w3 = Inr (w', effs)"
      by (simp add: KeyborgCore_onMouseDown_def w3_def)
    ultimately show ?thesis by (blast intro: timers_mono_trans timers_mono_setVal)
  qed
qed

lemma timers_mono_runTimer:
  assumes "runTimer f w = Inr (w', effs)"
  shows "timers_mono w w'"
proof (cases f)
  case (MouseUsedTimeout a)
  with assms show ?thesis by (auto intro: timers_mono_modCore_isMouseUsedTimer)
next
  case (DismissTimeout a win was)
  with assms show ?thesis
    by (auto simp: Let_def split: if_splits
        intro: timers_mono_modCore_dismissTimer timers_mono_trans [OF timers_mono_modCore_dismissTimer timers_mono_setVal])
qed

lemma timers_mono_fireTimer:
  assumes "fireTimer win h w = Inr (w', effs)"
  shows "timers_mono w w'"
  using assms
  by (auto simp: fireTimer_def split: option.splits if_splits
      intro: timers_mono_refl timers_mono_trans [OF timers_mono_clearTimeout timers_mono_runTimer])

lemma timers_mono_subscribe: "timers_mono w (Keyborg_subscribe a f w)"
  unfolding Keyborg_subscribe_def by (rule timers_mono_modKeyborg)

lemma timers_mono_unsubscribe: "timers_mono w (Keyborg_unsubscribe a f w)"
  unfolding Keyborg_unsubscribe_def by (rule timers_mono_modKeyborg)

lemma timers_mono_focus: "timers_mono w (putWin win ((getWin w win)\<lparr>activeElement := el\<rparr>) w)"
  by (rule timers_mono_putWin) simp_all

lemma timers_mono_create:
  assumes "createKeyborg win props w = (a, w')"
  shows "timers_mono w w'"
proof (cases "keyborg (getWin w win)")
  case None
  from create_fresh [OF None assms] show ?thesis
    by (intro timers_mono_same) auto
next
  case (Some current)
  from create_existing [OF Some assms] show ?thesis
    by (intro timers_mono_same) auto
qed

lemma timers_mono_state: "timers_mono w (w\<lparr>state := s\<rparr>)"
  by (rule timers_mono_same) simp_all

lemma timers_mono_KeyborgCore_dispose: "timers_mono w (KeyborgCore_dispose c w)"
proof (cases "map_of (cores w) c")
  case None
  then show ?thesis by (simp add: KeyborgCore_dispose_def timers_mono_refl)
next
  case (Some kc)
  show ?thesis
  proof (cases "core_win kc")
    case None
    with Some show ?thesis by (simp add: KeyborgCore_dispose_def timers_mono_refl)
  next
    case (Some win)
    define w1 where "w1 = (case isMouseUsedTimer kc of
                            None \<Rightarrow> w
                          | Some h \<Rightarrow>
                              if h \<noteq> 0
                              then modCore c (\<lambda>c. c\<lparr>isMouseUsedTimer := None\<rparr>) (clearTimeout win h w)
                              else w)"
    define w2 where "w2 = (case dismissTimer kc of
                            None \<Rightarrow> w1
                          | Some h \<Rightarrow>
                              if h \<noteq> 0
                              then modCore c (\<lambda>c. c\<lparr>dismissTimer := None\<rparr>) (clearTimeout win h w1)
                              else w1)"
    define w3 where "w3 = disposeFocusEvent win w2"
    define w4 where "w4 = putWin win
                           ((getWin w3 win)\<lparr>docListeners :=
                                 removeEventListener ''mousedown'' c
                                   (removeEventListener KEYBORG_FOCUSIN c (docListeners (getWin w3 win))),
                               winListeners := removeEventListener ''keydown'' c (winListeners (getWin w3 win))\<rparr>) w3"
    define w5 where "w5 = modCore c (\<lambda>c. c\<lparr>core_win := None\<rparr>) w4"
    have "timers_mono w w1" unfolding w1_def by (rule timers_mono_clear_isMouseUsedTimer)
    moreover have "timers_mono w1 w2" unfolding w2_def by (rule timers_mono_clear_dismissTimer)
    moreover have "timers_mono w2 w3" unfolding w3_def by (rule timers_mono_disposeFocusEvent)
    moreover have "timers_mono w3 w4" unfolding w4_def by (rule timers_mono_putWin) simp_all
    moreover have "timers_mono w4 w5" unfolding w5_def by (rule timers_mono_modCore)
    moreover have "timers_mono w5 (w5\<lparr>state := KeyborgState_remove (core_id kc) (state w5)\<rparr>)"
      by (rule timers_mono_state)
    ultimately have "timers_mono w (w5\<lparr>state := KeyborgState_remove (core_id kc) (state w5)\<rparr>)"
      by (blast intro: timers_mono_trans)
    moreover have "KeyborgCore_dispose c w = w5\<lparr>state := KeyborgState_remove (core_id kc) (state w5)\<rparr>"
      unfolding KeyborgCore_dispose_def Let_def w5_def w4_def w3_def w2_def w1_def
      using \<open>map_of (cores w) c = Some kc\<close> Some
      by (simp only: option.case)
    ultimately show ?thesis by simp
  qed
qed

lemma timers_mono_dispose:
  assumes d: "Keyborg_dispose dev a w = Inr (w', effs)"
  shows "timers_mono w w'"
proof (cases "map_of (keyborgs w) a")
  case None
  with d show ?thesis by (simp add: Keyborg_dispose_def timers_mono_refl)
next
  case (Some this)
  show ?thesis
  proof (cases "kb_win this = None \<or>
         (\<exists>win. kb_win this = Some win \<and>
            (keyborg (getWin w win) = None \<or>
             (\<exists>k. keyborg (getWin w win) = Some k \<and> map_of (refs k) (kb_id this) = None)))")
    case True
    from dispose_misuse [OF Some True, of dev] d show ?thesis
      by (auto intro: timers_mono_modKeyborg)
  next
    case False
    then obtain win k where win: "kb_win this = Some win" and k: "keyborg (getWin w win) = Some k"
      and i: "map_of (refs k) (kb_id this) \<noteq> None"
      by (cases "kb_win this") auto
    show ?thesis
    proof (cases "AList.delete (kb_id this) (refs k) = []")
      case True
      define w1 where "w1 = putWin win ((getWin w win)\<lparr>keyborg := Some (k\<lparr>refs := []\<rparr>)\<rparr>) w"
      define w2 where "w2 = KeyborgCore_dispose (core k) w1"
      define w3 where "w3 = putWin win ((getWin w2 win)\<lparr>keyborg := None\<rparr>) w2"
      have "timers_mono w w1" unfolding w1_def by (rule timers_mono_putWin) simp_all
      moreover have "timers_mono w1 w2" unfolding w2_def by (rule timers_mono_KeyborgCore_dispose)
      moreover have "timers_mono w2 w3" unfolding w3_def by (rule timers_mono_putWin) simp_all
      moreover have "timers_mono w3 (modKeyborg a (\<lambda>h. h\<lparr>kb_cb := [], kb_core := None, kb_win := None\<rparr>) w3)"
        by (rule timers_mono_modKeyborg)
      ultimately have "timers_mono w (modKeyborg a (\<lambda>h. h\<lparr>kb_cb := [], kb_core := None, kb_win := None\<rparr>) w3)"
        by (blast intro: timers_mono_trans)
      with dispose_last [OF Some win k i True, of dev] d show ?thesis
        by (simp add: w1_def w2_def w3_def)
    next
      case False
      define w1 where "w1 = putWin win ((getWin w win)\<lparr>keyborg :=
               Some (k\<lparr>refs := AList.delete (kb_id this) (refs k)\<rparr>)\<rparr>) w"
      have "timers_mono w w1" unfolding w1_def by (rule timers_mono_putWin) simp_all
      moreover have "timers_mono w1 (modKeyborg a (\<lambda>h. h\<lparr>kb_cb := [], kb_core := None, kb_win := None\<rparr>) w1)"
        by (rule timers_mono_modKeyborg)
      ultimately have "timers_mono w (modKeyborg a (\<lambda>h. h\<lparr>kb_cb := [], kb_core := None, kb_win := None\<rparr>) w1)"
        by (blast intro: timers_mono_trans)
      with dispose_shared [OF Some win k i False, of dev] d show ?thesis
        by (simp add: w1_def)
    qed
  qed
qed

lemma timers_ok_initWorld: "timers_ok initWorld"
  by (simp add: timers_ok_def initWorld_def getWin_def newWindow_def)

lemma reachable_timers_ok: "reachable w \<Longrightarrow> timers_ok w"
proof (induction rule: reachable.induct)
  case init
  show ?case by (rule timers_ok_initWorld)
next
  case (create w win props a w')
  then show ?case by (blast intro: timers_ok_mono timers_mono_create)
next
  case (dispose w dev a w' effs)
  then show ?case by (auto simp: disposeKeyborg_def intro: timers_ok_mono timers_mono_dispose)
next
  case (subscribe w a f)
  then show ?case by (blast intro: timers_ok_mono timers_mono_subscribe)
next
  case (unsubscribe w a f)
  then show ?case by (blast intro: timers_ok_mono timers_mono_unsubscribe)
next
  case (setVal w a v w' effs)
  then show ?case by (auto simp: Keyborg_setVal_def intro: timers_ok_mono timers_mono_setVal)
next
  case (focusin w a win fe w' effs)
  then show ?case by (blast intro: timers_ok_mono timers_mono_onFocusIn)
next
  case (mousedown w a win me w' effs)
  then show ?case by (blast intro: timers_ok_mono timers_mono_onMouseDown)
next
  case (keydown w a win ke w' effs)
  then show ?case by (blast intro: timers_ok_mono timers_mono_onKeyDown)
next
  case (timeout w win h w' effs)
  then show ?case by (blast intro: timers_ok_mono timers_mono_fireTimer)
next
  case (focus w win el)
  then show ?case by (blast intro: timers_ok_mono timers_mono_focus)
next
  case (tick w d)
  then show ?case by (blast intro: timers_ok_mono timers_mono_now)
next
  case (discard w win)
  then show ?case by (blast intro: timers_ok_discard)
qed

subsection \<open>Events at a registered listener\<close>

lemmas run_defs = createKeyborg_def new_Keyborg_def new_KeyborgCore_def initWorld_def getWin_def
  newWindow_def putWin_def setupFocusEvent_def KeyborgState_add_def addEventListener_def
  KEYBORG_FOCUSIN_def keySet_def Keyborg_subscribe_def modKeyborg_def modCore_def
  KeyborgCore_onKeyDown_def KeyborgCore_onFocusIn_def KeyborgCore_onMouseDown_def
  KeyborgState_getVal_def KeyborgState_setVal_def
  deref_def KeyborgCore_update_def Keyborg_update_def KeyborgCore_scheduleDismiss_def
  setTimeout_def clearTimeout_def dismissTimeout_def timerSet_def

lemma ex_one_run: "Keyborg_subscribe 1 7 (snd (createKeyborg 0 ex_props initWorld)) = ex_one"
  by (simp add: run_defs ex_props_def ex_one_def string_of_nat.simps Let_def)

lemma reachable_ex_one: "reachable ex_one"
  using reachable.subscribe [OF reachable.create [OF reachable.init, of 0 ex_props], of _ _ 1 7]
  by (metis ex_one_run prod.collapse)

lemma ex_nav_run:
  "KeyborgCore_onKeyDown 2 \<lparr>keyCode = 9\<rparr> ex_one = Inr (ex_nav, [CoreUpdate 2 True, Callback 7 True])"
  by (simp add: run_defs ex_one_def ex_nav_def Let_def)

lemma reachable_ex_nav: "reachable ex_nav"
  using reachable.keydown [OF reachable_ex_one _ ex_nav_run, of 0]
  by (simp add: ex_one_def getWin_def)

lemma setVal_total:
  assumes "wf_world w"
  shows "\<exists>w' effs. KeyborgState_setVal v w = Inr (w', effs)"
proof (cases "isNavigatingWithKeyboard (state w) = v")
  case True
  then show ?thesis by (simp add: KeyborgState_setVal_def)
next
  case False
  let ?w1 = "w\<lparr>state := (state w)\<lparr>isNavigatingWithKeyboard := v\<rparr>\<rparr>"
  have "distinct (map fst (keyborgCoreRefs (state ?w1)))"
    using wf_distinct [OF assms] by simp
  moreover have "\<forall>i\<in>set (map fst (keyborgCoreRefs (state ?w1))).
      map_of (keyborgCoreRefs (state ?w1)) i \<noteq> None"
    by (auto simp: map_of_eq_None_iff)
  ultimately obtain w' effs
    where "setVal_loop (map fst (keyborgCoreRefs (state ?w1))) v ?w1 = Inr (w', effs)"
    using setVal_loop_ok by blast
  with False show ?thesis by (simp add: KeyborgState_setVal_def Let_def)
qed

lemma setVal_False:
  assumes "KeyborgState_setVal False w = Inr (w', effs)"
  shows "\<not> isNavigatingWithKeyboard (state w')"
proof (cases "isNavigatingWithKeyboard (state w)")
  case False
  with assms show ?thesis by (auto simp: KeyborgState_setVal_def)
next
  case True
  with assms have "setVal_loop (map fst (keyborgCoreRefs (state w))) False
      (w\<lparr>state := (state w)\<lparr>isNavigatingWithKeyboard := False\<rparr>\<rparr>) = Inr (w', effs)"
    by (simp add: KeyborgState_setVal_def Let_def)
  from setVal_loop_nav [OF this] show ?thesis by auto
qed

lemma setVal_True:
  assumes run: "KeyborgState_setVal True w = Inr (w', effs)"
    and reg: "map_of (keyborgCoreRefs (state w)) i = Some r"
    and live: "map_of (cores w) r \<noteq> None"
  shows "isNavigatingWithKeyboard (state w')"
proof (cases "isNavigatingWithKeyboard (state w)")
  case True
  with run show ?thesis by (auto simp: KeyborgState_setVal_def)
next
  case False
  let ?w1 = "w\<lparr>state := (state w)\<lparr>isNavigatingWithKeyboard := True\<rparr>\<rparr>"
  from False run have l: "setVal_loop (map fst (keyborgCoreRefs (state w))) True ?w1 = Inr (w', effs)"
    by (simp add: KeyborgState_setVal_def Let_def)
  note keep = setVal_loop_registry [OF l, simplified]
  from keep reg live have "map_of (keyborgCoreRefs (state w')) i = Some r" by blast
  then have "keyborgCoreRefs (state w') \<noteq> []" by auto
  with setVal_loop_nav [OF l] show ?thesis by simp
qed

lemma listener_core:
  assumes "wf_world w"
    and "(t, a) \<in> set (docListeners (getWin w win)) \<union> set (winListeners (getWin w win))"
  shows "\<exists>k kc. keyborg (getWin w win) = Some k \<and> core k = a \<and> map_of (cores w) a = Some kc \<and>
     core_win kc = Some win \<and> map_of (keyborgCoreRefs (state w)) (core_id kc) = Some a"
proof (cases "keyborg (getWin w win)")
  case None
  from wf_window_None [OF wf_windowD [OF assms(1)] None] assms(2) show ?thesis by simp
next
  case (Some k)
  note s = wf_window_Some [OF wf_windowD [OF assms(1)] Some]
  from s(4,5) assms(2) have "core k = a" by auto
  with s(3) Some show ?thesis by auto
qed

lemma setVal_calls_append:
  "setVal_calls (vs @ us) w =
     (case setVal_calls vs w of
        Inl e \<Rightarrow> Inl e
      | Inr (w1, effs) \<Rightarrow>
          (case setVal_calls us w1 of
             Inl e \<Rightarrow> Inl e
           | Inr (w2, effs') \<Rightarrow> Inr (w2, effs @ effs')))"
  by (induction vs arbitrary: w) (auto split: sum.splits)

lemmas dispose_defs = disposeKeyborg_def Keyborg_dispose_def KeyborgCore_dispose_def
  disposeFocusEvent_def removeEventListener_def KeyborgState_remove_def disposedIncorrectly_def
  Keyborg_setVal_def

lemma ex_gone_run: "disposeKeyborg True 1 ex_one = Inr (ex_gone, [])"
  by (simp add: run_defs dispose_defs ex_one_def ex_gone_def Let_def)

lemma reachable_ex_gone: "reachable ex_gone"
  using reachable.dispose [OF reachable_ex_one ex_gone_run] .

lemma count_list_remove1_twice:
  "count_list (remove1 f (xs @ [f, f])) f = count_list xs f + 1"
  by (induction xs) auto

lemma keyborgs_KeyborgCore_dispose [simp]: "keyborgs (KeyborgCore_dispose c w) = keyborgs w"
proof (cases "map_of (cores w) c")
  case None
  then show ?thesis by (simp add: KeyborgCore_dispose_def)
next
  case (Some kc)
  show ?thesis
  proof (cases "core_win kc")
    case None
    with Some show ?thesis by (simp add: KeyborgCore_dispose_def)
  next
    case (Some win)
    from KeyborgCore_dispose_props [OF \<open>map_of (cores w) c = Some kc\<close> Some] show ?thesis by blast
  qed
qed

lemma dispose_handle_after:
  assumes "map_of (keyborgs w) a = Some this" and "Keyborg_dispose dev a w = Inr (w1, effs)"
  shows "map_of (keyborgs w1) a = Some (this\<lparr>kb_cb := [], kb_core := None, kb_win := None\<rparr>)"
  using assms
  by (auto simp: Keyborg_dispose_def Let_def split: option.splits if_splits)

subsection \<open>The registry invariant\<close>

lemma registry_inv_add: "registry_inv s \<Longrightarrow> registry_inv (KeyborgState_add a kc s)"
  by (simp add: registry_inv_def KeyborgState_add_def Let_def)

lemma registry_inv_remove: "registry_inv (KeyborgState_remove i s)"
  by (simp add: registry_inv_def)

lemma setVal_loop_inv:
  "setVal_loop ids v w = Inr (w', effs) \<Longrightarrow> state w' = state w \<or> registry_inv (state w')"
proof (induction ids arbitrary: w effs)
  case Nil
  then show ?case by simp
next
  case (Cons i ids)
  from Cons.prems obtain r where r: "map_of (keyborgCoreRefs (state w)) i = Some r"
    by (cases "map_of (keyborgCoreRefs (state w)) i") auto
  show ?case
  proof (cases "deref w r")
    case None
    let ?w1 = "w\<lparr>state := KeyborgState_remove i (state w)\<rparr>"
    from None Cons.prems r have "setVal_loop ids v ?w1 = Inr (w', effs)" by simp
    from Cons.IH [OF this] registry_inv_remove [of i "state w"] show ?thesis by auto
  next
    case (Some kc)
    with Cons.prems r obtain effs' where "setVal_loop ids v w = Inr (w', effs')"
      by (auto split: sum.splits)
    from Cons.IH [OF this] show ?thesis .
  qed
qed

lemma registry_inv_setVal:
  assumes "KeyborgState_setVal v w = Inr (w', effs)" and "registry_inv (state w)"
    and "\<not> v \<or> keyborgCoreRefs (state w) \<noteq> []"
  shows "registry_inv (state w')"
proof (cases "isNavigatingWithKeyboard (state w) = v")
  case True
  with assms show ?thesis by (simp add: KeyborgState_setVal_def)
next
  case False
  let ?w1 = "w\<lparr>state := (state w)\<lparr>isNavigatingWithKeyboard := v\<rparr>\<rparr>"
  from False assms(1) have l: "setVal_loop (map fst (keyborgCoreRefs (state w))) v ?w1 = Inr (w', effs)"
    by (simp add: KeyborgState_setVal_def Let_def)
  show ?thesis
  proof (cases "keyborgCoreRefs (state w)")
    case Nil
    with l assms(3) show ?thesis by (auto simp: registry_inv_def)
  next
    case (Cons p ps)
    show ?thesis
      using setVal_loop_inv [OF l] Cons by (auto simp: registry_inv_def)
  qed
qed

lemma reachable_ex_bug: "reachable ex_bug \<and> \<not> registry_inv (state ex_bug)"
proof -
  have "Keyborg_setVal 1 True ex_gone = Inr (ex_bug, [])"
    by (simp add: Keyborg_setVal_def KeyborgState_setVal_def ex_gone_def ex_bug_def Let_def)
  from reachable.setVal [OF reachable_ex_gone this] show ?thesis
    by (simp add: registry_inv_def ex_gone_def ex_bug_def)
qed

lemma setVal_same:
  assumes "KeyborgState_setVal v w = Inr (w', effs)"
  shows "cores w' = cores w \<and> keyborgs w' = keyborgs w \<and> windows w' = windows w \<and>
     lastId w' = lastId w \<and> now w' = now w"
proof (cases "isNavigatingWithKeyboard (state w) = v")
  case True
  with assms show ?thesis by (auto simp: KeyborgState_setVal_def)
next
  case False
  with assms have "setVal_loop (map fst (keyborgCoreRefs (state w))) v
      (w\<lparr>state := (state w)\<lparr>isNavigatingWithKeyboard := v\<rparr>\<rparr>) = Inr (w', effs)"
    by (simp add: KeyborgState_setVal_def Let_def)
  from setVal_loop_same [OF this] show ?thesis by simp
qed

lemma map_of_append_fresh: "map_of xs k = None \<Longrightarrow> map_of (xs @ [(k, v)]) k = Some v"
  by (simp add: map_add_def)

lemma timers_fresh:
  assumes "timers_ok w"
  shows "map_of (timers (getWin w win)) (lastTimer (getWin w win) + 1) = None"
proof (cases "map_of (timers (getWin w win)) (lastTimer (getWin w win) + 1)")
  case None
  then show ?thesis .
next
  case (Some x)
  with assms have "lastTimer (getWin w win) + 1 \<le> lastTimer (getWin w win)"
    unfolding timers_ok_def by (metis option.distinct(1))
  then show ?thesis by simp
qed

subsection \<open>The scheduled dismiss\<close>

lemma scheduleDismiss_unfold:
  assumes "map_of (cores w) a = Some kc" and "core_win kc = Some win"
  shows "state (KeyborgCore_scheduleDismiss a w) = state w \<and>
     now (KeyborgCore_scheduleDismiss a w) = now w \<and>
     (\<exists>kc1. map_of (cores (KeyborgCore_scheduleDismiss a w)) a = Some kc1 \<and>
        dismissTimer kc1 = Some (lastTimer (getWin w win) + 1)) \<and>
     activeElement (getWin (KeyborgCore_scheduleDismiss a w) win) = activeElement (getWin w win) \<and>
     timers (getWin (KeyborgCore_scheduleDismiss a w) win) =
       (case dismissTimer kc of
          None \<Rightarrow> timers (getWin w win)
        | Some h \<Rightarrow> if h \<noteq> 0 then AList.delete h (timers (getWin w win))
                     else timers (getWin w win))
       @ [(lastTimer (getWin w win) + 1, now w + dismissTimeout,
           DismissTimeout a win (activeElement (getWin w win)))]"
  using assms
  by (auto simp: KeyborgCore_scheduleDismiss_def Let_def split_beta getWin_setTimeout
      getWin_clearTimeout fst_setTimeout split: option.splits)

lemma timers_delete_le:
  "map_of (case t of None \<Rightarrow> ts | Some h \<Rightarrow> if h \<noteq> 0 then AList.delete h ts else ts) k \<noteq> None
     \<Longrightarrow> map_of ts k \<noteq> None"
  by (auto simp: AList.delete_conv' split: option.splits if_splits)

lemma fireTimer_early:
  assumes "map_of (timers (getWin u win)) h = Some (due, f)" and "now u < due"
  shows "fireTimer win h u = Inr (u, [])"
  using assms by (simp add: fireTimer_def)

lemma fireTimer_dismiss:
  assumes wfu: "wf_world u"
    and pend: "map_of (timers (getWin u win)) h = Some (due, DismissTimeout a win was)"
    and due: "due \<le> now u"
  shows "\<exists>u' effs. fireTimer win h u = Inr (u', effs) \<and>
     map_of (timers (getWin u' win)) h = None \<and>
     (if was \<noteq> None \<and> activeElement (getWin u win) = was
      then \<not> KeyborgState_getVal (state u')
      else state u' = state u \<and> effs = [])"
proof -
  define u1 where "u1 = modCore a (\<lambda>c. c\<lparr>dismissTimer := None\<rparr>) (clearTimeout win h u)"
  have act: "activeElement (getWin u1 win) = activeElement (getWin u win)"
    and tm: "map_of (timers (getWin u1 win)) h = None"
    and st: "state u1 = state u"
    by (simp_all add: u1_def getWin_clearTimeout AList.delete_conv')
  have f: "fireTimer win h u =
      (if was \<noteq> None \<and> activeElement (getWin u win) \<noteq> None \<and> was = activeElement (getWin u win)
       then KeyborgState_setVal False u1 else Inr (u1, []))"
    using pend due by (simp add: fireTimer_def Let_def u1_def getWin_clearTimeout)
  show ?thesis
  proof (cases "was \<noteq> None \<and> activeElement (getWin u win) = was")
    case True
    have "frame u u1"
      unfolding u1_def by (blast intro: frame_trans frame_clearTimeout frame_modCore_dismissTimer)
    from wf_frame [OF wfu this] have "wf_world u1" .
    from setVal_total [OF this, of False] obtain u' effs
      where run: "KeyborgState_setVal False u1 = Inr (u', effs)" by blast
    from setVal_same [OF run] have "getWin u' win = getWin u1 win" by (simp add: getWin_def)
    with tm have "map_of (timers (getWin u' win)) h = None" by simp
    moreover from setVal_False [OF run] have "\<not> KeyborgState_getVal (state u')"
      by (simp add: KeyborgState_getVal_def)
    moreover from f True run have "fireTimer win h u = Inr (u', effs)" by auto
    ultimately show ?thesis using True by auto
  next
    case False
    with f have "fireTimer win h u = Inr (u1, [])" by auto
    with False tm st show ?thesis by auto
  qed
qed

lemma reachable_ex_foc: "reachable ex_foc"
  unfolding ex_foc_def by (rule reachable.focus [OF reachable_ex_nav])

lemma ex_foc_facts:
  "(''keydown'', 2) \<in> set (winListeners (getWin ex_foc 0))"
  "lastTimer (getWin ex_foc 0) = 0"
  "now ex_foc = 0"
  "activeElement (getWin ex_foc 0) = Some 4"
  "KeyborgState_getVal (state ex_foc)"
  "map_of (cores ex_foc) 2 = Some \<lparr>core_id = ''c2'', core_win = Some 0, isMouseUsedTimer = None,
                    dismissTimer = None, core_triggerKeys = Some {9},
                    core_dismissKeys = Some {27}\<rparr>"
  by (simp_all add: ex_foc_def ex_nav_def ex_one_def getWin_def putWin_def KeyborgState_getVal_def)

lemma reachable_ex_sched: "reachable ex_sched"
proof -
  have "KeyborgCore_onKeyDown 2 \<lparr>keyCode = 27\<rparr> ex_foc = Inr (ex_sched, [])"
    using ex_foc_facts(5,6) by (simp add: KeyborgCore_onKeyDown_def ex_sched_def)
  from reachable.keydown [OF reachable_ex_foc ex_foc_facts(1) this] show ?thesis .
qed

lemma reachable_ex_due: "reachable ex_due"
  unfolding ex_due_def by (rule reachable.tick [OF reachable_ex_sched])

subsection \<open>Two handles on a window\<close>

lemma delete_all_Nil:
  assumes "\<And>j x. map_of xs j = Some x \<Longrightarrow> j = i"
  shows "AList.delete i xs = []"
proof -
  have "fst p = i" if "p \<in> set xs" for p
  proof -
    from that have "fst p \<in> fst ` set xs" by simp
    then obtain x where "map_of xs (fst p) = Some x"
      by (cases "map_of xs (fst p)") (auto simp: map_of_eq_None_iff)
    from assms [OF this] show ?thesis .
  qed
  then show ?thesis by (auto simp: AList.delete_eq filter_empty_conv)
qed

lemma ex_two_run: "Keyborg_subscribe 3 8 (snd (createKeyborg 0 None ex_one)) = ex_two"
  by (simp add: run_defs ex_one_def ex_two_def string_of_nat.simps Let_def)

lemma reachable_ex_two: "reachable ex_two"
  using reachable.subscribe [OF reachable.create [OF reachable_ex_one, of 0 None], of _ _ 3 8]
  by (metis ex_two_run prod.collapse)

lemma ex_left_run: "disposeKeyborg True 1 ex_two = Inr (ex_left, [])"
  by (simp add: run_defs dispose_defs ex_one_def ex_two_def ex_left_def Let_def)

lemma reachable_ex_left: "reachable ex_left"
  using reachable.dispose [OF reachable_ex_two ex_left_run] .

lemma ex_none_run: "disposeKeyborg True 3 ex_left = Inr (ex_none, [])"
  by (simp add: run_defs dispose_defs ex_one_def ex_two_def ex_left_def ex_none_def ex_gone_def Let_def)

section \<open>The claims\<close>

text \<open>
  C1 (as amended). A mousedown event delivered to the listener of a window core is ignored,
  with the store unchanged and no timer started, when its \<open>buttons\<close> field is zero or all
  four of its coordinates are zero. Every other mousedown (buttons not zero and some
  coordinate not zero) starts a mouse-used timer of 1000 ms, which the core records, and
  calls \<open>_state.setVal(false)\<close>, after which the shared state is \<open>false\<close>.
\<close>

theorem onMouseDown_transition:
  assumes "reachable w" and "(''mousedown'', a) \<in> set (docListeners (getWin w win))"
  shows "\<exists>kc. map_of (cores w) a = Some kc \<and> core_win kc = Some win \<and>
     (if buttons e = 0 \<or> (clientX e = 0 \<and> clientY e = 0 \<and> screenX e = 0 \<and> screenY e = 0)
      then KeyborgCore_onMouseDown a e w = Inr (w, [])
      else \<exists>w' effs kc'. KeyborgCore_onMouseDown a e w = Inr (w', effs) \<and>
             \<not> KeyborgState_getVal (state w') \<and>
             map_of (cores w') a = Some kc' \<and>
             isMouseUsedTimer kc' = Some (lastTimer (getWin w win) + 1) \<and>
             timerSet (isMouseUsedTimer kc') \<and>
             map_of (timers (getWin w' win)) (lastTimer (getWin w win) + 1)
               = Some (now w + 1000, MouseUsedTimeout a))"
proof -
  note wfw = reachable_wf [OF assms(1)]
  from listener_core [OF wfw, of "''mousedown''" a win] assms(2) obtain kc
    where kc: "map_of (cores w) a = Some kc" "core_win kc = Some win" by auto
  show ?thesis
  proof (cases "buttons e = 0 \<or> (clientX e = 0 \<and> clientY e = 0 \<and> screenX e = 0 \<and> screenY e = 0)")
    case True
    with kc show ?thesis by (auto simp: KeyborgCore_onMouseDown_def)
  next
    case False
    define w1 where "w1 = (case isMouseUsedTimer kc of
                             None \<Rightarrow> w
                           | Some h \<Rightarrow> if h \<noteq> 0 then clearTimeout win h w else w)"
    define st where "st = setTimeout win (MouseUsedTimeout a) 1000 w1"
    define w3 where "w3 = modCore a (\<lambda>c. c\<lparr>isMouseUsedTimer := Some (fst st)\<rparr>) (snd st)"
    have h: "KeyborgCore_onMouseDown a e w = KeyborgState_setVal False w3"
      using kc False by (auto simp: KeyborgCore_onMouseDown_def Let_def split_beta w1_def st_def w3_def)
    have f1: "frame w w1" and t1: "timers_mono w w1"
      unfolding w1_def
      by (simp_all add: frame_refl frame_clearTimeout timers_mono_refl timers_mono_clearTimeout
          split: option.splits)
    have f3: "frame w w3"
      unfolding w3_def st_def
      by (blast intro: frame_trans f1 frame_setTimeout frame_modCore_isMouseUsedTimer)
    from wf_frame [OF wfw f3] have wf3: "wf_world w3" .
    from setVal_total [OF wf3, of False] obtain w' effs
      where run: "KeyborgState_setVal False w3 = Inr (w', effs)" by blast
    note same = setVal_same [OF run]
    have lt: "lastTimer (getWin w1 win) = lastTimer (getWin w win)"
      unfolding w1_def by (simp add: getWin_clearTimeout split: option.splits)
    have n1: "now w1 = now w"
      unfolding w1_def by (simp split: option.splits)
    have fst: "fst st = lastTimer (getWin w win) + 1"
      unfolding st_def by (simp add: fst_setTimeout lt)
    from timers_ok_mono [OF reachable_timers_ok [OF assms(1)] t1]
    have fresh: "map_of (timers (getWin w1 win)) (lastTimer (getWin w win) + 1) = None"
      using timers_fresh [of w1 win] by (simp add: lt)
    have tm: "map_of (timers (getWin w3 win)) (lastTimer (getWin w win) + 1)
               = Some (now w + 1000, MouseUsedTimeout a)"
      unfolding w3_def st_def using fresh
      by (simp add: getWin_setTimeout lt n1 map_add_def)
    have c1: "map_of (cores w1) a = Some kc"
      unfolding w1_def using kc by (simp split: option.splits)
    have c3: "map_of (cores w3) a = Some (kc\<lparr>isMouseUsedTimer := Some (lastTimer (getWin w win) + 1)\<rparr>)"
      unfolding w3_def st_def using c1 by (simp add: fst [unfolded st_def])
    from same have gw: "getWin w' win = getWin w3 win" by (simp add: getWin_def)
    from run h have "KeyborgCore_onMouseDown a e w = Inr (w', effs)" by simp
    moreover from setVal_False [OF run] have "\<not> KeyborgState_getVal (state w')"
      by (simp add: KeyborgState_getVal_def)
    moreover from c3 same
    have "map_of (cores w') a = Some (kc\<lparr>isMouseUsedTimer := Some (lastTimer (getWin w win) + 1)\<rparr>)"
      by simp
    moreover from tm gw have "map_of (timers (getWin w' win)) (lastTimer (getWin w win) + 1)
               = Some (now w + 1000, MouseUsedTimeout a)" by simp
    ultimately show ?thesis using kc False by (auto simp: timerSet_def)
  qed
qed

theorem onMouseDown_transition_witness:
  "reachable ex_nav \<and> (''mousedown'', 2) \<in> set (docListeners (getWin ex_nav 0)) \<and>
   KeyborgCore_onMouseDown 2
     \<lparr>buttons = 1, clientX = 10, clientY = 20, screenX = 10, screenY = 20\<rparr> ex_nav
     = Inr (ex_clicked, [CoreUpdate 2 False, Callback 7 False]) \<and>
   \<not> KeyborgState_getVal (state ex_clicked) \<and>
   map_of (timers (getWin ex_clicked 0)) 1 = Some (1000, MouseUsedTimeout 2) \<and>
   KeyborgCore_onMouseDown 2
     \<lparr>buttons = 0, clientX = 0, clientY = 0, screenX = 0, screenY = 0\<rparr> ex_nav = Inr (ex_nav, [])"
proof -
  have l: "(''mousedown'', 2) \<in> set (docListeners (getWin ex_nav 0))"
    by (simp add: ex_one_def ex_nav_def getWin_def)
  have r: "KeyborgCore_onMouseDown 2
     \<lparr>buttons = 1, clientX = 10, clientY = 20, screenX = 10, screenY = 20\<rparr> ex_nav
     = Inr (ex_clicked, [CoreUpdate 2 False, Callback 7 False])"
    by (simp add: run_defs ex_one_def ex_nav_def ex_clicked_def Let_def)
  from onMouseDown_transition [OF reachable_ex_nav l,
      of "\<lparr>buttons = 1, clientX = 10, clientY = 20, screenX = 10, screenY = 20\<rparr>"] r
  have a: "\<not> KeyborgState_getVal (state ex_clicked) \<and>
     map_of (timers (getWin ex_clicked 0)) 1 = Some (1000, MouseUsedTimeout 2)"
    by (auto simp: ex_nav_def ex_one_def getWin_def)
  from onMouseDown_transition [OF reachable_ex_nav l,
      of "\<lparr>buttons = 0, clientX = 0, clientY = 0, screenX = 0, screenY = 0\<rparr>"]
  have b: "KeyborgCore_onMouseDown 2
     \<lparr>buttons = 0, clientX = 0, clientY = 0, screenX = 0, screenY = 0\<rparr> ex_nav = Inr (ex_nav, [])"
    by auto
  from reachable_ex_nav l r a b show ?thesis by simp
qed

text \<open>
  The claim as stated fails: a mousedown with \<open>buttons = 0\<close> and coordinates that are not
  zero is ignored (the state stays \<open>true\<close> and no timer is started), and so is one with a
  button down and all coordinates zero.
\<close>

theorem onMouseDown_counterexample:
  "buttons \<lparr>buttons = 0, clientX = 10, clientY = 20, screenX = 10, screenY = 20\<rparr> = 0 \<and>
   clientX \<lparr>buttons = 0, clientX = 10, clientY = 20, screenX = 10, screenY = 20\<rparr> \<noteq> 0 \<and>
   (''mousedown'', 2) \<in> set (docListeners (getWin ex_nav 0)) \<and>
   KeyborgState_getVal (state ex_nav) \<and>
   KeyborgCore_onMouseDown 2
     \<lparr>buttons = 0, clientX = 10, clientY = 20, screenX = 10, screenY = 20\<rparr> ex_nav = Inr (ex_nav, []) \<and>
   timers (getWin ex_nav 0) = [] \<and>
   buttons \<lparr>buttons = 1, clientX = 0, clientY = 0, screenX = 0, screenY = 0\<rparr> \<noteq> 0 \<and>
   KeyborgCore_onMouseDown 2
     \<lparr>buttons = 1, clientX = 0, clientY = 0, screenX = 0, screenY = 0\<rparr> ex_nav = Inr (ex_nav, [])"
  by (simp add: KeyborgCore_onMouseDown_def KeyborgState_getVal_def ex_nav_def ex_one_def getWin_def)

text \<open>
  C2. The invariant (an empty registry implies that the boolean is \<open>false\<close>) is broken by
  \<open>setVal(true)\<close> on an empty registry: the page creates a handle, disposes of it (the
  registry is empty and the boolean \<open>false\<close>) and calls \<open>setVal(true)\<close> on the disposed
  handle; afterwards the registry is empty and the boolean is \<open>true\<close>. The same happens on
  the state singleton as the module creates it. \<open>remove\<close> restores the invariant whenever
  it empties the registry (\<open>registry_inv_remove\<close>), and \<open>setVal\<close> keeps it in every other
  case (\<open>registry_inv_setVal\<close>).
\<close>

theorem setVal_on_empty_registry:
  "Keyborg_subscribe 1 7 (snd (createKeyborg 0 ex_props initWorld)) = ex_one \<and>
   disposeKeyborg True 1 ex_one = Inr (ex_gone, []) \<and>
   keyborgCoreRefs (state ex_gone) = [] \<and>
   \<not> isNavigatingWithKeyboard (state ex_gone) \<and>
   Keyborg_setVal 1 True ex_gone = Inr (ex_bug, []) \<and>
   keyborgCoreRefs (state ex_bug) = [] \<and>
   isNavigatingWithKeyboard (state ex_bug) \<and>
   KeyborgState_setVal True initWorld =
     Inr (initWorld\<lparr>state := \<lparr>keyborgCoreRefs = [], isNavigatingWithKeyboard = True\<rparr>\<rparr>, [])"
proof -
  have s: "Keyborg_setVal 1 True ex_gone = Inr (ex_bug, [])"
    by (simp add: Keyborg_setVal_def KeyborgState_setVal_def ex_gone_def ex_bug_def Let_def)
  have i: "KeyborgState_setVal True initWorld =
     Inr (initWorld\<lparr>state := \<lparr>keyborgCoreRefs = [], isNavigatingWithKeyboard = True\<rparr>\<rparr>, [])"
    by (simp add: KeyborgState_setVal_def initWorld_def Let_def)
  from ex_one_run ex_gone_run s i show ?thesis
    by (simp add: ex_gone_def ex_bug_def)
qed

text \<open>
  C3. A \<open>setVal\<close> call with the value already in effect, on the state singleton or through
  a handle, returns the store unchanged (stored boolean and registry included) and has no
  effect: no \<open>update\<close> of a core and no subscriber callback runs. After any sequence of
  \<open>setVal\<close> calls, one more call with the value then in effect adds nothing to the store
  or to the effects.
\<close>

theorem setVal_same_value:
  "KeyborgState_setVal (KeyborgState_getVal (state w)) w = Inr (w, []) \<and>
   Keyborg_setVal a (KeyborgState_getVal (state w)) w = Inr (w, []) \<and>
   (setVal_calls vs w = Inr (w1, effs) \<longrightarrow>
      setVal_calls (vs @ [KeyborgState_getVal (state w1)]) w = Inr (w1, effs))"
  by (simp add: KeyborgState_setVal_def Keyborg_setVal_def KeyborgState_getVal_def
      setVal_calls_append)

theorem setVal_same_value_witness:
  "setVal_calls [True] ex_one = Inr (ex_nav, [CoreUpdate 2 True, Callback 7 True]) \<and>
   KeyborgState_getVal (state ex_nav) = True \<and>
   setVal_calls [True, True] ex_one = Inr (ex_nav, [CoreUpdate 2 True, Callback 7 True]) \<and>
   Keyborg_setVal 1 True ex_nav = Inr (ex_nav, [])"
proof -
  have s: "setVal_calls [True] ex_one = Inr (ex_nav, [CoreUpdate 2 True, Callback 7 True])"
    by (simp add: run_defs ex_one_def ex_nav_def Let_def)
  have g: "KeyborgState_getVal (state ex_nav) = True"
    by (simp add: ex_nav_def KeyborgState_getVal_def)
  from setVal_same_value [of ex_one 1 "[True]" ex_nav "[CoreUpdate 2 True, Callback 7 True]"]
    setVal_same_value [of ex_nav 1 "[]" ex_nav "[]"] s g
  show ?thesis by simp
qed

text \<open>
  C4. A focus-in event delivered to the listener of a window core changes nothing when the
  mouse-used timer of the core is set, or the shared state is already \<open>true\<close>, or the
  event has no \<open>relatedTarget\<close>, or \<open>isFocusedProgrammatically\<close> is \<open>true\<close> or
  \<open>undefined\<close>. In every other case the handler is the call \<open>_state.setVal(true)\<close>, which
  returns, and the shared state is \<open>true\<close> afterwards.
\<close>

theorem onFocusIn_transition:
  assumes "reachable w" and "(KEYBORG_FOCUSIN, a) \<in> set (docListeners (getWin w win))"
  shows "\<exists>kc. map_of (cores w) a = Some kc \<and>
     (if timerSet (isMouseUsedTimer kc) \<or> KeyborgState_getVal (state w)
          \<or> relatedTarget (details e) = None
          \<or> isFocusedProgrammatically (details e) \<noteq> Some False
      then KeyborgCore_onFocusIn a e w = Inr (w, [])
      else \<exists>w' effs. KeyborgCore_onFocusIn a e w = Inr (w', effs) \<and>
             KeyborgState_setVal True w = Inr (w', effs) \<and> KeyborgState_getVal (state w'))"
proof -
  note wfw = reachable_wf [OF assms(1)]
  from listener_core [OF wfw, of KEYBORG_FOCUSIN a win] assms(2) obtain kc
    where kc: "map_of (cores w) a = Some kc"
      and reg: "map_of (keyborgCoreRefs (state w)) (core_id kc) = Some a" by auto
  from setVal_total [OF wfw, of True] obtain w' effs
    where run: "KeyborgState_setVal True w = Inr (w', effs)" by blast
  from setVal_True [OF run reg] kc have "KeyborgState_getVal (state w')"
    by (simp add: KeyborgState_getVal_def)
  with run kc show ?thesis
    by (cases "isFocusedProgrammatically (details e)") (auto simp: KeyborgCore_onFocusIn_def)
qed

theorem onFocusIn_transition_witness:
  "reachable ex_one \<and> (KEYBORG_FOCUSIN, 2) \<in> set (docListeners (getWin ex_one 0)) \<and>
   KeyborgCore_onFocusIn 2
     \<lparr>details = \<lparr>relatedTarget = Some 5, isFocusedProgrammatically = Some False\<rparr>\<rparr> ex_one
     = Inr (ex_nav, [CoreUpdate 2 True, Callback 7 True]) \<and>
   KeyborgState_getVal (state ex_nav) \<and>
   KeyborgCore_onFocusIn 2
     \<lparr>details = \<lparr>relatedTarget = Some 5, isFocusedProgrammatically = None\<rparr>\<rparr> ex_one
     = Inr (ex_one, [])"
proof -
  have l: "(KEYBORG_FOCUSIN, 2) \<in> set (docListeners (getWin ex_one 0))"
    by (simp add: ex_one_def getWin_def KEYBORG_FOCUSIN_def)
  have c: "map_of (cores ex_one) 2 = Some \<lparr>core_id = ''c2'', core_win = Some 0, isMouseUsedTimer = None,
                    dismissTimer = None, core_triggerKeys = Some {9},
                    core_dismissKeys = Some {27}\<rparr>"
    by (simp add: ex_one_def)
  have s: "KeyborgState_setVal True ex_one = Inr (ex_nav, [CoreUpdate 2 True, Callback 7 True])"
    by (simp add: run_defs ex_one_def ex_nav_def Let_def)
  have g: "\<not> KeyborgState_getVal (state ex_one)"
    by (simp add: ex_one_def KeyborgState_getVal_def)
  from onFocusIn_transition [OF reachable_ex_one l,
      of "\<lparr>details = \<lparr>relatedTarget = Some 5, isFocusedProgrammatically = Some False\<rparr>\<rparr>"]
    onFocusIn_transition [OF reachable_ex_one l,
      of "\<lparr>details = \<lparr>relatedTarget = Some 5, isFocusedProgrammatically = None\<rparr>\<rparr>"]
    reachable_ex_one l c s g
  show ?thesis by (auto simp: timerSet_def)
qed

text \<open>
  C5. A keydown event delivered to the listener of a window core: when the shared state is
  not \<open>true\<close> and the core has no trigger keys or the key code is one of them, the handler
  is the call \<open>_state.setVal(true)\<close>, which returns, and the shared state is \<open>true\<close>
  afterwards; otherwise, when the shared state is \<open>true\<close> and the key code is one of the
  dismiss keys of the core, the handler schedules a dismiss; every other keydown changes
  nothing. The constructor leaves the trigger keys (the dismiss keys) unset when no
  properties, no list or an empty list is given, and otherwise stores the set of the list.
\<close>

theorem onKeyDown_transition:
  assumes "reachable w" and "(''keydown'', a) \<in> set (winListeners (getWin w win))"
  shows "\<exists>kc. map_of (cores w) a = Some kc \<and>
     (if \<not> KeyborgState_getVal (state w) \<and>
          (core_triggerKeys kc = None \<or> (\<exists>ks. core_triggerKeys kc = Some ks \<and> keyCode e \<in> ks))
      then \<exists>w' effs. KeyborgCore_onKeyDown a e w = Inr (w', effs) \<and>
             KeyborgState_setVal True w = Inr (w', effs) \<and> KeyborgState_getVal (state w')
      else if KeyborgState_getVal (state w) \<and>
              (\<exists>ks. core_dismissKeys kc = Some ks \<and> keyCode e \<in> ks)
      then KeyborgCore_onKeyDown a e w = Inr (KeyborgCore_scheduleDismiss a w, [])
      else KeyborgCore_onKeyDown a e w = Inr (w, [])) \<and>
     (new_KeyborgCore win' props u = (c, u') \<longrightarrow>
        (\<exists>kc'. map_of (cores u') c = Some kc' \<and>
           core_triggerKeys kc' =
             (case props of None \<Rightarrow> None
              | Some p \<Rightarrow> (case triggerKeys p of None \<Rightarrow> None
                           | Some l \<Rightarrow> if l = [] then None else Some (set l))) \<and>
           core_dismissKeys kc' =
             (case props of None \<Rightarrow> None
              | Some p \<Rightarrow> (case dismissKeys p of None \<Rightarrow> None
                           | Some l \<Rightarrow> if l = [] then None else Some (set l)))))"
proof -
  note wfw = reachable_wf [OF assms(1)]
  from listener_core [OF wfw, of "''keydown''" a win] assms(2) obtain kc
    where kc: "map_of (cores w) a = Some kc"
      and reg: "map_of (keyborgCoreRefs (state w)) (core_id kc) = Some a" by auto
  from setVal_total [OF wfw, of True] obtain w' effs
    where run: "KeyborgState_setVal True w = Inr (w', effs)" by blast
  from setVal_True [OF run reg] kc have "KeyborgState_getVal (state w')"
    by (simp add: KeyborgState_getVal_def)
  with run kc have handler: "if \<not> KeyborgState_getVal (state w) \<and>
          (core_triggerKeys kc = None \<or> (\<exists>ks. core_triggerKeys kc = Some ks \<and> keyCode e \<in> ks))
      then \<exists>w' effs. KeyborgCore_onKeyDown a e w = Inr (w', effs) \<and>
             KeyborgState_setVal True w = Inr (w', effs) \<and> KeyborgState_getVal (state w')
      else if KeyborgState_getVal (state w) \<and>
              (\<exists>ks. core_dismissKeys kc = Some ks \<and> keyCode e \<in> ks)
      then KeyborgCore_onKeyDown a e w = Inr (KeyborgCore_scheduleDismiss a w, [])
      else KeyborgCore_onKeyDown a e w = Inr (w, [])"
    by (cases "core_triggerKeys kc"; cases "core_dismissKeys kc")
      (auto simp: KeyborgCore_onKeyDown_def Let_def)
  have ctor: "new_KeyborgCore win' props u = (c, u') \<longrightarrow>
        (\<exists>kc'. map_of (cores u') c = Some kc' \<and>
           core_triggerKeys kc' =
             (case props of None \<Rightarrow> None
              | Some p \<Rightarrow> (case triggerKeys p of None \<Rightarrow> None
                           | Some l \<Rightarrow> if l = [] then None else Some (set l))) \<and>
           core_dismissKeys kc' =
             (case props of None \<Rightarrow> None
              | Some p \<Rightarrow> (case dismissKeys p of None \<Rightarrow> None
                           | Some l \<Rightarrow> if l = [] then None else Some (set l))))"
    by (auto simp: new_KeyborgCore_def Let_def AList.update_conv' keySet_def split: option.splits)
  from kc handler ctor show ?thesis by blast
qed

theorem onKeyDown_transition_witness:
  "reachable ex_one \<and> (''keydown'', 2) \<in> set (winListeners (getWin ex_one 0)) \<and>
   KeyborgCore_onKeyDown 2 \<lparr>keyCode = 9\<rparr> ex_one = Inr (ex_nav, [CoreUpdate 2 True, Callback 7 True]) \<and>
   KeyborgState_getVal (state ex_nav) \<and>
   KeyborgCore_onKeyDown 2 \<lparr>keyCode = 65\<rparr> ex_one = Inr (ex_one, []) \<and>
   KeyborgCore_onKeyDown 2 \<lparr>keyCode = 27\<rparr> ex_nav = Inr (KeyborgCore_scheduleDismiss 2 ex_nav, []) \<and>
   KeyborgCore_onKeyDown 2 \<lparr>keyCode = 9\<rparr> ex_nav = Inr (ex_nav, [])"
proof -
  have l: "(''keydown'', 2) \<in> set (winListeners (getWin ex_one 0))"
    and l': "(''keydown'', 2) \<in> set (winListeners (getWin ex_nav 0))"
    by (simp_all add: ex_one_def ex_nav_def getWin_def)
  have c: "map_of (cores ex_one) 2 = Some \<lparr>core_id = ''c2'', core_win = Some 0, isMouseUsedTimer = None,
                    dismissTimer = None, core_triggerKeys = Some {9},
                    core_dismissKeys = Some {27}\<rparr>"
    and c': "map_of (cores ex_nav) 2 = Some \<lparr>core_id = ''c2'', core_win = Some 0, isMouseUsedTimer = None,
                    dismissTimer = None, core_triggerKeys = Some {9},
                    core_dismissKeys = Some {27}\<rparr>"
    by (simp_all add: ex_one_def ex_nav_def)
  have s: "KeyborgState_setVal True ex_one = Inr (ex_nav, [CoreUpdate 2 True, Callback 7 True])"
    by (simp add: run_defs ex_one_def ex_nav_def Let_def)
  have g: "\<not> KeyborgState_getVal (state ex_one)" "KeyborgState_getVal (state ex_nav)"
    by (simp_all add: ex_one_def ex_nav_def KeyborgState_getVal_def)
  from onKeyDown_transition [OF reachable_ex_one l, of "\<lparr>keyCode = 9\<rparr>"] c s g
  have k1: "KeyborgCore_onKeyDown 2 \<lparr>keyCode = 9\<rparr> ex_one = Inr (ex_nav, [CoreUpdate 2 True, Callback 7 True])"
    by auto
  from onKeyDown_transition [OF reachable_ex_one l, of "\<lparr>keyCode = 65\<rparr>"] c g
  have k2: "KeyborgCore_onKeyDown 2 \<lparr>keyCode = 65\<rparr> ex_one = Inr (ex_one, [])"
    by auto
  from onKeyDown_transition [OF reachable_ex_nav l', of "\<lparr>keyCode = 27\<rparr>"] c' g
  have k3: "KeyborgCore_onKeyDown 2 \<lparr>keyCode = 27\<rparr> ex_nav = Inr (KeyborgCore_scheduleDismiss 2 ex_nav, [])"
    by auto
  from onKeyDown_transition [OF reachable_ex_nav l', of "\<lparr>keyCode = 9\<rparr>"] c' g
  have k4: "KeyborgCore_onKeyDown 2 \<lparr>keyCode = 9\<rparr> ex_nav = Inr (ex_nav, [])"
    by auto
  from reachable_ex_one l k1 k2 k3 k4 g show ?thesis by simp
qed

text \<open>
  C6 (as amended). Scheduling a dismiss on a window core changes no navigation state,
  cancels the pending dismiss timeout of the core, if any, and starts a fresh one, which
  the core records: it is due 500 ms later and carries the element that has the focus at
  scheduling time. Before it is due the timeout cannot run. When it runs, it is no longer
  pending, and the shared state is set to \<open>false\<close> if an element had the focus at
  scheduling time and the same element has the focus now; otherwise (the focus has moved,
  or no element had the focus) the state is left as it is and nothing is notified.
\<close>

theorem scheduleDismiss_behaviour:
  assumes "reachable w" and "(''keydown'', a) \<in> set (winListeners (getWin w win))"
  shows "\<exists>kc. map_of (cores w) a = Some kc \<and>
     state (KeyborgCore_scheduleDismiss a w) = state w \<and>
     (\<exists>kc1. map_of (cores (KeyborgCore_scheduleDismiss a w)) a = Some kc1 \<and>
        dismissTimer kc1 = Some (lastTimer (getWin w win) + 1)) \<and>
     timers (getWin (KeyborgCore_scheduleDismiss a w) win) =
       (case dismissTimer kc of
          None \<Rightarrow> timers (getWin w win)
        | Some h \<Rightarrow> if h \<noteq> 0 then AList.delete h (timers (getWin w win))
                     else timers (getWin w win))
       @ [(lastTimer (getWin w win) + 1, now w + 500,
           DismissTimeout a win (activeElement (getWin w win)))] \<and>
     map_of (timers (getWin (KeyborgCore_scheduleDismiss a w) win)) (lastTimer (getWin w win) + 1)
       = Some (now w + 500, DismissTimeout a win (activeElement (getWin w win))) \<and>
     (map_of (timers (getWin u win)) (lastTimer (getWin w win) + 1)
          = Some (now w + 500, DismissTimeout a win (activeElement (getWin w win))) \<and>
      now u < now w + 500 \<longrightarrow>
        fireTimer win (lastTimer (getWin w win) + 1) u = Inr (u, [])) \<and>
     (reachable u \<and>
      map_of (timers (getWin u win)) (lastTimer (getWin w win) + 1)
          = Some (now w + 500, DismissTimeout a win (activeElement (getWin w win))) \<and>
      now w + 500 \<le> now u \<longrightarrow>
        (\<exists>u' effs. fireTimer win (lastTimer (getWin w win) + 1) u = Inr (u', effs) \<and>
           map_of (timers (getWin u' win)) (lastTimer (getWin w win) + 1) = None \<and>
           (if activeElement (getWin w win) \<noteq> None \<and>
               activeElement (getWin u win) = activeElement (getWin w win)
            then \<not> KeyborgState_getVal (state u')
            else state u' = state u \<and> effs = [])))"
proof -
  note wfw = reachable_wf [OF assms(1)]
  from listener_core [OF wfw, of "''keydown''" a win] assms(2) obtain kc
    where kc: "map_of (cores w) a = Some kc" "core_win kc = Some win" by auto
  note s = scheduleDismiss_unfold [OF kc]
  let ?ts = "case dismissTimer kc of
          None \<Rightarrow> timers (getWin w win)
        | Some h \<Rightarrow> if h \<noteq> 0 then AList.delete h (timers (getWin w win))
                     else timers (getWin w win)"
  have "map_of ?ts (lastTimer (getWin w win) + 1) = None"
  proof (cases "map_of ?ts (lastTimer (getWin w win) + 1)")
    case None
    then show ?thesis .
  next
    case (Some x)
    then have "map_of ?ts (lastTimer (getWin w win) + 1) \<noteq> None" by simp
    from timers_delete_le [OF this] timers_fresh [OF reachable_timers_ok [OF assms(1)], of win]
    show ?thesis by simp
  qed
  with s have pend: "map_of (timers (getWin (KeyborgCore_scheduleDismiss a w) win))
      (lastTimer (getWin w win) + 1)
       = Some (now w + 500, DismissTimeout a win (activeElement (getWin w win)))"
    by (simp add: map_add_def dismissTimeout_def)
  have early: "map_of (timers (getWin u win)) (lastTimer (getWin w win) + 1)
          = Some (now w + 500, DismissTimeout a win (activeElement (getWin w win))) \<and>
      now u < now w + 500 \<longrightarrow>
        fireTimer win (lastTimer (getWin w win) + 1) u = Inr (u, [])"
    by (auto intro: fireTimer_early)
  have fire: "reachable u \<and>
      map_of (timers (getWin u win)) (lastTimer (getWin w win) + 1)
          = Some (now w + 500, DismissTimeout a win (activeElement (getWin w win))) \<and>
      now w + 500 \<le> now u \<longrightarrow>
        (\<exists>u' effs. fireTimer win (lastTimer (getWin w win) + 1) u = Inr (u', effs) \<and>
           map_of (timers (getWin u' win)) (lastTimer (getWin w win) + 1) = None \<and>
           (if activeElement (getWin w win) \<noteq> None \<and>
               activeElement (getWin u win) = activeElement (getWin w win)
            then \<not> KeyborgState_getVal (state u')
            else state u' = state u \<and> effs = []))"
    using fireTimer_dismiss [OF reachable_wf, of u win] by blast
  from kc(1) s pend early fire show ?thesis
    by (simp add: dismissTimeout_def)
qed

theorem scheduleDismiss_behaviour_witness:
  "reachable ex_foc \<and> (''keydown'', 2) \<in> set (winListeners (getWin ex_foc 0)) \<and>
   state ex_sched = state ex_foc \<and>
   map_of (timers (getWin ex_sched 0)) 1 = Some (500, DismissTimeout 2 0 (Some 4)) \<and>
   fireTimer 0 1 ex_sched = Inr (ex_sched, []) \<and>
   reachable ex_due \<and> now ex_due = 500 \<and>
   activeElement (getWin ex_due 0) = Some 4 \<and>
   (\<exists>u' effs. fireTimer 0 1 ex_due = Inr (u', effs) \<and>
      map_of (timers (getWin u' 0)) 1 = None \<and> \<not> KeyborgState_getVal (state u'))"
proof -
  note u = scheduleDismiss_unfold [OF ex_foc_facts(6), of 0, folded ex_sched_def, simplified]
  from u have n: "now ex_sched = 0" and act: "activeElement (getWin ex_sched 0) = Some 4"
    by (simp_all add: ex_foc_facts)
  note t1 = scheduleDismiss_behaviour [OF reachable_ex_foc ex_foc_facts(1), of ex_sched,
      folded ex_sched_def, unfolded ex_foc_facts]
  note t2 = scheduleDismiss_behaviour [OF reachable_ex_foc ex_foc_facts(1), of ex_due,
      folded ex_sched_def, unfolded ex_foc_facts]
  from t1 have st: "state ex_sched = state ex_foc"
    and pend: "map_of (timers (getWin ex_sched 0)) 1 = Some (500, DismissTimeout 2 0 (Some 4))"
    by auto
  from t1 pend n have early: "fireTimer 0 1 ex_sched = Inr (ex_sched, [])"
    by auto
  have d: "now ex_due = 500" "activeElement (getWin ex_due 0) = Some 4"
    "map_of (timers (getWin ex_due 0)) 1 = Some (500, DismissTimeout 2 0 (Some 4))"
    using n act pend by (simp_all add: ex_due_def)
  from t2 d reachable_ex_due
  have fire: "\<exists>u' effs. fireTimer 0 1 ex_due = Inr (u', effs) \<and>
      map_of (timers (getWin u' 0)) 1 = None \<and> \<not> KeyborgState_getVal (state u')"
    by auto
  from reachable_ex_foc ex_foc_facts(1) st pend early reachable_ex_due d fire
  show ?thesis by simp
qed

text \<open>
  The claim as stated fails when no element has the focus: Escape is pressed in keyboard
  navigation while \<open>document.activeElement\<close> is \<open>null\<close>, the focus does not change, the
  timeout runs after 500 ms, and the shared state is still \<open>true\<close>.
\<close>

theorem scheduleDismiss_counterexample:
  "activeElement (getWin ex_nav 0) = None \<and>
   KeyborgState_getVal (state ex_nav) \<and>
   KeyborgCore_onKeyDown 2 \<lparr>keyCode = 27\<rparr> ex_nav = Inr (ex_nosel, []) \<and>
   map_of (timers (getWin ex_nosel 0)) 1 = Some (500, DismissTimeout 2 0 None) \<and>
   activeElement (getWin (ex_nosel\<lparr>now := 500\<rparr>) 0) = None \<and>
   fireTimer 0 1 (ex_nosel\<lparr>now := 500\<rparr>) = Inr (ex_kept, []) \<and>
   KeyborgState_getVal (state ex_kept)"
  by (simp add: run_defs fireTimer_def ex_nosel_def ex_kept_def ex_nav_def ex_one_def Let_def)

text \<open>
  C7. In every store a run of the module can reach, a window has \<open>__keyborg\<close> (and with it
  a core) if and only if some handle still holds the window, that is, was created for it
  and has not been disposed of. Disposing of one of two such handles of a window leaves the
  other handle (its callback list included), the cores, the state singleton and the
  listeners as they are and only removes the disposed handle from the registry of the
  window. Disposing of the only such handle removes \<open>__keyborg\<close> and the listeners from
  the window, and the core loses its window and its registration in the state singleton.
\<close>

theorem core_iff_live_handle:
  assumes "reachable w"
  shows "((keyborg (getWin w win) \<noteq> None) \<longleftrightarrow>
            (\<exists>a h. map_of (keyborgs w) a = Some h \<and> kb_win h = Some win)) \<and>
     (map_of (keyborgs w) a = Some ha \<and> kb_win ha = Some win \<and>
      map_of (keyborgs w) b = Some hb \<and> kb_win hb = Some win \<and> b \<noteq> a \<and>
      disposeKeyborg dev a w = Inr (w', effs) \<longrightarrow>
        map_of (keyborgs w') b = Some hb \<and> cores w' = cores w \<and> state w' = state w \<and>
        docListeners (getWin w' win) = docListeners (getWin w win) \<and>
        winListeners (getWin w' win) = winListeners (getWin w win) \<and>
        (\<exists>k k'. keyborg (getWin w win) = Some k \<and> keyborg (getWin w' win) = Some k' \<and>
           core k' = core k \<and> refs k' = AList.delete (kb_id ha) (refs k) \<and>
           map_of (refs k') (kb_id hb) = Some b)) \<and>
     (map_of (keyborgs w) a = Some ha \<and> kb_win ha = Some win \<and>
      (\<forall>b hb. map_of (keyborgs w) b = Some hb \<and> kb_win hb = Some win \<longrightarrow> b = a) \<and>
      disposeKeyborg dev a w = Inr (w', effs) \<longrightarrow>
        keyborg (getWin w' win) = None \<and>
        docListeners (getWin w' win) = [] \<and> winListeners (getWin w' win) = [] \<and>
        (\<exists>k kc'. keyborg (getWin w win) = Some k \<and> map_of (cores w') (core k) = Some kc' \<and>
           core_win kc' = None \<and> map_of (keyborgCoreRefs (state w')) (core_id kc') = None))"
proof -
  note wfw = reachable_wf [OF assms]
  have iff: "(keyborg (getWin w win) \<noteq> None) \<longleftrightarrow>
            (\<exists>a h. map_of (keyborgs w) a = Some h \<and> kb_win h = Some win)"
  proof
    assume "keyborg (getWin w win) \<noteq> None"
    then obtain k where k: "keyborg (getWin w win) = Some k" by auto
    note s = wf_window_Some [OF wf_windowD [OF wfw] k]
    from s(1) obtain p ps where "refs k = p # ps" by (cases "refs k") auto
    then have "map_of (refs k) (fst p) = Some (snd p)" by simp
    from s(2) [OF this] show "\<exists>a h. map_of (keyborgs w) a = Some h \<and> kb_win h = Some win"
      by blast
  next
    assume "\<exists>a h. map_of (keyborgs w) a = Some h \<and> kb_win h = Some win"
    then obtain a h where "map_of (keyborgs w) a = Some h" "kb_win h = Some win" by blast
    from wf_handleD [OF wfw this] show "keyborg (getWin w win) \<noteq> None" by auto
  qed
  have shared: "map_of (keyborgs w') b = Some hb \<and> cores w' = cores w \<and> state w' = state w \<and>
        docListeners (getWin w' win) = docListeners (getWin w win) \<and>
        winListeners (getWin w' win) = winListeners (getWin w win) \<and>
        (\<exists>k k'. keyborg (getWin w win) = Some k \<and> keyborg (getWin w' win) = Some k' \<and>
           core k' = core k \<and> refs k' = AList.delete (kb_id ha) (refs k) \<and>
           map_of (refs k') (kb_id hb) = Some b)"
    if two: "map_of (keyborgs w) a = Some ha \<and> kb_win ha = Some win \<and>
      map_of (keyborgs w) b = Some hb \<and> kb_win hb = Some win \<and> b \<noteq> a \<and>
      disposeKeyborg dev a w = Inr (w', effs)"
  proof -
    from two have ha: "map_of (keyborgs w) a = Some ha" "kb_win ha = Some win"
      and hb: "map_of (keyborgs w) b = Some hb" "kb_win hb = Some win" and ne: "b \<noteq> a"
      and d: "Keyborg_dispose dev a w = Inr (w', effs)"
      by (simp_all add: disposeKeyborg_def)
    from wf_handleD [OF wfw ha] obtain k
      where k: "keyborg (getWin w win) = Some k" "map_of (refs k) (kb_id ha) = Some a" by blast
    from wf_handleD [OF wfw hb] k(1) have kb: "map_of (refs k) (kb_id hb) = Some b" by simp
    with k(2) ne have idne: "kb_id hb \<noteq> kb_id ha" by auto
    with kb have rest: "map_of (AList.delete (kb_id ha) (refs k)) (kb_id hb) = Some b"
      by (simp add: AList.delete_conv')
    then have "AList.delete (kb_id ha) (refs k) \<noteq> []" by auto
    from dispose_shared [OF ha k(1) _ this, of dev] k(2) d
    have w': "w' = modKeyborg a (\<lambda>h. h\<lparr>kb_cb := [], kb_core := None, kb_win := None\<rparr>)
            (putWin win ((getWin w win)\<lparr>keyborg :=
               Some (k\<lparr>refs := AList.delete (kb_id ha) (refs k)\<rparr>)\<rparr>) w)"
      by simp
    from hb ne k(1) rest show ?thesis by (simp add: w')
  qed
  have last: "keyborg (getWin w' win) = None \<and>
        docListeners (getWin w' win) = [] \<and> winListeners (getWin w' win) = [] \<and>
        (\<exists>k kc'. keyborg (getWin w win) = Some k \<and> map_of (cores w') (core k) = Some kc' \<and>
           core_win kc' = None \<and> map_of (keyborgCoreRefs (state w')) (core_id kc') = None)"
    if one: "map_of (keyborgs w) a = Some ha \<and> kb_win ha = Some win \<and>
      (\<forall>b hb. map_of (keyborgs w) b = Some hb \<and> kb_win hb = Some win \<longrightarrow> b = a) \<and>
      disposeKeyborg dev a w = Inr (w', effs)"
  proof -
    from one have ha: "map_of (keyborgs w) a = Some ha" "kb_win ha = Some win"
      and only: "\<And>b hb. map_of (keyborgs w) b = Some hb \<Longrightarrow> kb_win hb = Some win \<Longrightarrow> b = a"
      and d: "Keyborg_dispose dev a w = Inr (w', effs)"
      by (simp_all add: disposeKeyborg_def)
    from wf_handleD [OF wfw ha] obtain k
      where k: "keyborg (getWin w win) = Some k" "map_of (refs k) (kb_id ha) = Some a" by blast
    note s = wf_window_Some [OF wf_windowD [OF wfw] k(1)]
    have "j = kb_id ha" if "map_of (refs k) j = Some x" for j x
    proof -
      from s(2) [OF that] obtain h where h: "map_of (keyborgs w) x = Some h" "kb_id h = j"
          "kb_win h = Some win" by blast
      from only [OF h(1,3)] h(1,2) ha(1) show ?thesis by simp
    qed
    then have emp: "AList.delete (kb_id ha) (refs k) = []" by (rule delete_all_Nil)
    define w1 where "w1 = putWin win ((getWin w win)\<lparr>keyborg := Some (k\<lparr>refs := []\<rparr>)\<rparr>) w"
    define w2 where "w2 = KeyborgCore_dispose (core k) w1"
    from dispose_last [OF ha k(1) _ emp, of dev] k(2) d
    have w': "w' = modKeyborg a (\<lambda>h. h\<lparr>kb_cb := [], kb_core := None, kb_win := None\<rparr>)
            (putWin win ((getWin w2 win)\<lparr>keyborg := None\<rparr>) w2)"
      by (simp add: w1_def w2_def)
    from s(3) obtain kc where kc: "map_of (cores w) (core k) = Some kc" "core_win kc = Some win"
      by blast
    from kc(1) have kc1: "map_of (cores w1) (core k) = Some kc" by (simp add: w1_def)
    note p = KeyborgCore_dispose_props [OF kc1 kc(2), folded w2_def]
    from p obtain kc' where kc': "map_of (cores w2) (core k) = Some kc'" "core_id kc' = core_id kc"
      "core_win kc' = None" by blast
    from p have st: "state w' = KeyborgState_remove (core_id kc) (state w)"
      by (simp add: w' w1_def)
    from p s(4,5) have "docListeners (getWin w' win) = []" "winListeners (getWin w' win) = []"
      by (simp_all add: w' w1_def removeEventListener_all)
    moreover have "keyborg (getWin w' win) = None" by (simp add: w')
    moreover from kc' have "map_of (cores w') (core k) = Some kc'" by (simp add: w')
    moreover have "map_of (keyborgCoreRefs (state w')) (core_id kc') = None"
      by (simp add: st kc'(2) AList.delete_conv')
    ultimately show ?thesis using k(1) kc'(3) by simp
  qed
  from iff shared last show ?thesis by blast
qed

theorem core_iff_live_handle_witness:
  "reachable ex_two \<and>
   keyborg (getWin ex_two 0) = Some \<lparr>core = 2, refs = [(''k1'', 1), (''k3'', 3)]\<rparr> \<and>
   disposeKeyborg True 1 ex_two = Inr (ex_left, []) \<and>
   map_of (keyborgs ex_left) 3 = Some \<lparr>kb_id = ''k3'', kb_win = Some 0, kb_core = Some 2, kb_cb = [8]\<rparr> \<and>
   cores ex_left = cores ex_two \<and> state ex_left = state ex_two \<and>
   keyborg (getWin ex_left 0) = Some \<lparr>core = 2, refs = [(''k3'', 3)]\<rparr> \<and>
   reachable ex_left \<and>
   disposeKeyborg True 3 ex_left = Inr (ex_none, []) \<and>
   keyborg (getWin ex_none 0) = None \<and>
   docListeners (getWin ex_none 0) = [] \<and> winListeners (getWin ex_none 0) = [] \<and>
   (\<exists>kc'. map_of (cores ex_none) 2 = Some kc' \<and> core_win kc' = None \<and>
      map_of (keyborgCoreRefs (state ex_none)) (core_id kc') = None)"
proof -
  have h1: "map_of (keyborgs ex_two) 1 = Some \<lparr>kb_id = ''k1'', kb_win = Some 0, kb_core = Some 2, kb_cb = [7]\<rparr>"
    and h3: "map_of (keyborgs ex_two) 3 = Some \<lparr>kb_id = ''k3'', kb_win = Some 0, kb_core = Some 2, kb_cb = [8]\<rparr>"
    and k2: "keyborg (getWin ex_two 0) = Some \<lparr>core = 2, refs = [(''k1'', 1), (''k3'', 3)]\<rparr>"
    by (simp_all add: ex_two_def ex_one_def getWin_def)
  have l3: "map_of (keyborgs ex_left) 3 = Some \<lparr>kb_id = ''k3'', kb_win = Some 0, kb_core = Some 2, kb_cb = [8]\<rparr>"
    and kl: "keyborg (getWin ex_left 0) = Some \<lparr>core = 2, refs = [(''k3'', 3)]\<rparr>"
    and only: "\<forall>b hb. map_of (keyborgs ex_left) b = Some hb \<and> kb_win hb = Some 0 \<longrightarrow> b = 3"
    by (auto simp: ex_left_def ex_two_def ex_one_def getWin_def split: if_splits)
  from core_iff_live_handle [OF reachable_ex_two, of 0 1
      "\<lparr>kb_id = ''k1'', kb_win = Some 0, kb_core = Some 2, kb_cb = [7]\<rparr>" 3
      "\<lparr>kb_id = ''k3'', kb_win = Some 0, kb_core = Some 2, kb_cb = [8]\<rparr>" True ex_left "[]"]
    h1 h3 ex_left_run
  have a: "cores ex_left = cores ex_two \<and> state ex_left = state ex_two"
    by simp
  from core_iff_live_handle [OF reachable_ex_left, of 0 3
      "\<lparr>kb_id = ''k3'', kb_win = Some 0, kb_core = Some 2, kb_cb = [8]\<rparr>" 3
      "\<lparr>kb_id = ''k3'', kb_win = Some 0, kb_core = Some 2, kb_cb = [8]\<rparr>" True ex_none "[]"]
    l3 only ex_none_run kl
  have b: "keyborg (getWin ex_none 0) = None \<and>
     docListeners (getWin ex_none 0) = [] \<and> winListeners (getWin ex_none 0) = [] \<and>
     (\<exists>kc'. map_of (cores ex_none) 2 = Some kc' \<and> core_win kc' = None \<and>
        map_of (keyborgCoreRefs (state ex_none)) (core_id kc') = None)"
    by auto
  from reachable_ex_two k2 ex_left_run l3 a kl reachable_ex_left ex_none_run b
  show ?thesis by simp
qed

text \<open>
  C8. Disposing of a handle never throws. Disposing of a handle that has no window any more,
  or whose window has no \<open>__keyborg\<close>, or that is not in the handle registry of its window,
  leaves the windows (their handle registries included), the cores and the state singleton
  as they are; so does every second disposal of a handle. The only effect of such a
  disposal is the \<open>console.error\<close> message, and only when \<open>__DEV__\<close> is set.
\<close>

theorem dispose_misuse_harmless:
  assumes "map_of (keyborgs w) a = Some this"
  shows "(\<exists>w' effs. Keyborg_dispose dev a w = Inr (w', effs)) \<and>
     ((kb_win this = None \<or>
       (\<exists>win. kb_win this = Some win \<and>
          (keyborg (getWin w win) = None \<or>
           (\<exists>k. keyborg (getWin w win) = Some k \<and> map_of (refs k) (kb_id this) = None)))) \<longrightarrow>
        (\<exists>w'. Keyborg_dispose dev a w = Inr (w', disposedIncorrectly dev this) \<and>
              windows w' = windows w \<and> cores w' = cores w \<and> state w' = state w)) \<and>
     (Keyborg_dispose dev a w = Inr (w1, effs1) \<longrightarrow>
        (\<exists>w2. Keyborg_dispose dev a w1 = Inr (w2, disposedIncorrectly dev this) \<and>
              windows w2 = windows w1 \<and> cores w2 = cores w1 \<and> state w2 = state w1)) \<and>
     disposedIncorrectly False this = [] \<and>
     disposedIncorrectly True this =
       [ConsoleError (''Keyborg instance '' @ kb_id this @ '' is being disposed incorrectly.'')]"
proof (intro conjI impI)
  show "\<exists>w' effs. Keyborg_dispose dev a w = Inr (w', effs)"
    by (rule dispose_never_throws)
  show "\<exists>w'. Keyborg_dispose dev a w = Inr (w', disposedIncorrectly dev this) \<and>
              windows w' = windows w \<and> cores w' = cores w \<and> state w' = state w"
    if "kb_win this = None \<or>
       (\<exists>win. kb_win this = Some win \<and>
          (keyborg (getWin w win) = None \<or>
           (\<exists>k. keyborg (getWin w win) = Some k \<and> map_of (refs k) (kb_id this) = None)))"
    using dispose_misuse [OF assms that, of dev] by simp
  show "\<exists>w2. Keyborg_dispose dev a w1 = Inr (w2, disposedIncorrectly dev this) \<and>
              windows w2 = windows w1 \<and> cores w2 = cores w1 \<and> state w2 = state w1"
    if "Keyborg_dispose dev a w = Inr (w1, effs1)"
  proof -
    let ?this' = "this\<lparr>kb_cb := [], kb_core := None, kb_win := None\<rparr>"
    from dispose_handle_after [OF assms that] have h: "map_of (keyborgs w1) a = Some ?this'" .
    have "kb_win ?this' = None" by simp
    with dispose_misuse [OF h, of dev] show ?thesis by (simp add: disposedIncorrectly_def)
  qed
  show "disposedIncorrectly False this = []"
    by (simp add: disposedIncorrectly_def)
  show "disposedIncorrectly True this =
       [ConsoleError (''Keyborg instance '' @ kb_id this @ '' is being disposed incorrectly.'')]"
    by (simp add: disposedIncorrectly_def)
qed

theorem dispose_misuse_harmless_witness:
  "map_of (keyborgs ex_one) 1 = Some \<lparr>kb_id = ''k1'', kb_win = Some 0, kb_core = Some 2, kb_cb = [7]\<rparr> \<and>
   Keyborg_dispose True 1 ex_one = Inr (ex_gone, []) \<and>
   Keyborg_dispose True 1 ex_gone =
     Inr (ex_gone, [ConsoleError ''Keyborg instance k1 is being disposed incorrectly.'']) \<and>
   Keyborg_dispose False 1 ex_gone = Inr (ex_gone, [])"
proof -
  have h: "map_of (keyborgs ex_one) 1 = Some \<lparr>kb_id = ''k1'', kb_win = Some 0, kb_core = Some 2, kb_cb = [7]\<rparr>"
    by (simp add: ex_one_def)
  have g: "map_of (keyborgs ex_gone) 1 = Some \<lparr>kb_id = ''k1'', kb_win = None, kb_core = None, kb_cb = []\<rparr>"
    by (simp add: ex_gone_def)
  have d: "Keyborg_dispose True 1 ex_one = Inr (ex_gone, [])"
    using ex_gone_run by (simp add: disposeKeyborg_def)
  have same: "w' = ex_gone"
    if "Keyborg_dispose dev 1 ex_gone = Inr (w', effs)" for dev w' effs
    using that by (simp add: dispose_defs modKeyborg_def ex_gone_def getWin_def Let_def split: if_splits)
  from dispose_misuse_harmless [OF g, of True] same [of True]
  have t: "Keyborg_dispose True 1 ex_gone =
     Inr (ex_gone, [ConsoleError ''Keyborg instance k1 is being disposed incorrectly.''])"
    by (auto simp: disposedIncorrectly_def)
  from dispose_misuse_harmless [OF g, of False] same [of False]
  have f: "Keyborg_dispose False 1 ex_gone = Inr (ex_gone, [])"
    by (auto simp: disposedIncorrectly_def)
  from h d t f show ?thesis by simp
qed

text \<open>
  C9. For a handle and its callback list: \<open>subscribe\<close> appends the callback at the end
  (whether or not it is already there); \<open>unsubscribe\<close> removes the first occurrence of
  the callback and nothing else, and leaves the list as it is when the callback is not in
  it; after subscribing a callback twice and unsubscribing it once the list has one
  occurrence more than before. The other handles keep their lists.
\<close>

theorem subscribe_unsubscribe:
  assumes "map_of (keyborgs w) a = Some h"
  shows "map_of (keyborgs (Keyborg_subscribe a f w)) a = Some (h\<lparr>kb_cb := kb_cb h @ [f]\<rparr>) \<and>
     map_of (keyborgs (Keyborg_unsubscribe a f w)) a = Some (h\<lparr>kb_cb := remove1 f (kb_cb h)\<rparr>) \<and>
     (f \<notin> set (kb_cb h) \<longrightarrow> map_of (keyborgs (Keyborg_unsubscribe a f w)) a = Some h) \<and>
     (kb_cb h = xs @ f # ys \<and> f \<notin> set xs \<longrightarrow>
        map_of (keyborgs (Keyborg_unsubscribe a f w)) a = Some (h\<lparr>kb_cb := xs @ ys\<rparr>)) \<and>
     (\<exists>h'. map_of (keyborgs (Keyborg_unsubscribe a f (Keyborg_subscribe a f (Keyborg_subscribe a f w)))) a
             = Some h' \<and>
           count_list (kb_cb h') f = count_list (kb_cb h) f + 1) \<and>
     (b \<noteq> a \<longrightarrow> map_of (keyborgs (Keyborg_subscribe a f w)) b = map_of (keyborgs w) b \<and>
        map_of (keyborgs (Keyborg_unsubscribe a f w)) b = map_of (keyborgs w) b)"
proof -
  have sub: "map_of (keyborgs (Keyborg_subscribe a f w)) a = Some (h\<lparr>kb_cb := kb_cb h @ [f]\<rparr>)"
    using assms by (simp add: Keyborg_subscribe_def)
  have uns: "map_of (keyborgs (Keyborg_unsubscribe a f w)) a = Some (h\<lparr>kb_cb := remove1 f (kb_cb h)\<rparr>)"
    using assms by (simp add: Keyborg_unsubscribe_def unsubscribe_cb_remove1)
  have absent: "f \<notin> set (kb_cb h) \<longrightarrow> map_of (keyborgs (Keyborg_unsubscribe a f w)) a = Some h"
    using uns by (simp add: remove1_idem)
  have first: "kb_cb h = xs @ f # ys \<and> f \<notin> set xs \<longrightarrow>
        map_of (keyborgs (Keyborg_unsubscribe a f w)) a = Some (h\<lparr>kb_cb := xs @ ys\<rparr>)"
    using uns by (simp add: remove1_append)
  have twice: "\<exists>h'. map_of (keyborgs (Keyborg_unsubscribe a f (Keyborg_subscribe a f (Keyborg_subscribe a f w)))) a
             = Some h' \<and>
           count_list (kb_cb h') f = count_list (kb_cb h) f + 1"
    using assms count_list_remove1_twice [of f "kb_cb h"]
    by (simp add: Keyborg_subscribe_def Keyborg_unsubscribe_def unsubscribe_cb_remove1)
  have others: "b \<noteq> a \<longrightarrow> map_of (keyborgs (Keyborg_subscribe a f w)) b = map_of (keyborgs w) b \<and>
        map_of (keyborgs (Keyborg_unsubscribe a f w)) b = map_of (keyborgs w) b"
    by (simp add: Keyborg_subscribe_def Keyborg_unsubscribe_def)
  from sub uns absent first twice others show ?thesis by blast
qed

theorem subscribe_unsubscribe_witness:
  "map_of (keyborgs ex_one) 1 = Some \<lparr>kb_id = ''k1'', kb_win = Some 0, kb_core = Some 2, kb_cb = [7]\<rparr> \<and>
   map_of (keyborgs (Keyborg_subscribe 1 8 ex_one)) 1
     = Some \<lparr>kb_id = ''k1'', kb_win = Some 0, kb_core = Some 2, kb_cb = [7, 8]\<rparr> \<and>
   map_of (keyborgs (Keyborg_unsubscribe 1 7 (Keyborg_subscribe 1 7 ex_one))) 1
     = Some \<lparr>kb_id = ''k1'', kb_win = Some 0, kb_core = Some 2, kb_cb = [7]\<rparr> \<and>
   map_of (keyborgs (Keyborg_unsubscribe 1 8 ex_one)) 1
     = Some \<lparr>kb_id = ''k1'', kb_win = Some 0, kb_core = Some 2, kb_cb = [7]\<rparr>"
proof -
  have h: "map_of (keyborgs ex_one) 1 = Some \<lparr>kb_id = ''k1'', kb_win = Some 0, kb_core = Some 2, kb_cb = [7]\<rparr>"
    by (simp add: ex_one_def)
  have h2: "map_of (keyborgs (Keyborg_subscribe 1 7 ex_one)) 1
     = Some \<lparr>kb_id = ''k1'', kb_win = Some 0, kb_core = Some 2, kb_cb = [7, 7]\<rparr>"
    using subscribe_unsubscribe [OF h, of 7] by simp
  from subscribe_unsubscribe [OF h, of 8] subscribe_unsubscribe [OF h2, of 7] h
  show ?thesis by simp
qed

text \<open>
  C10. \<open>isDisposed()\<close> of a core is \<open>true\<close> exactly when the core holds its window
  reference: it is \<open>true\<close> for a core as its constructor leaves it and for the core of any
  window that has one, and \<open>false\<close> once \<open>dispose()\<close> has run.
\<close>

theorem isDisposed_reports_window:
  "(KeyborgCore_isDisposed kc \<longleftrightarrow> core_win kc \<noteq> None) \<and>
   (new_KeyborgCore win props w = (a, w') \<longrightarrow>
      (\<exists>kc'. map_of (cores w') a = Some kc' \<and> core_win kc' = Some win \<and> KeyborgCore_isDisposed kc')) \<and>
   (reachable w \<longrightarrow> keyborg (getWin w win) = Some k \<longrightarrow>
      (\<exists>kc'. map_of (cores w) (core k) = Some kc' \<and> core_win kc' = Some win \<and>
             KeyborgCore_isDisposed kc')) \<and>
   (map_of (cores w) a = Some kc \<longrightarrow>
      (\<exists>kc'. map_of (cores (KeyborgCore_dispose a w)) a = Some kc' \<and> core_win kc' = None \<and>
             \<not> KeyborgCore_isDisposed kc'))"
proof (intro conjI impI)
  show "KeyborgCore_isDisposed kc \<longleftrightarrow> core_win kc \<noteq> None"
    by (simp add: KeyborgCore_isDisposed_def)
  show "\<exists>kc'. map_of (cores w') a = Some kc' \<and> core_win kc' = Some win \<and> KeyborgCore_isDisposed kc'"
    if "new_KeyborgCore win props w = (a, w')"
    using that
    by (auto simp: new_KeyborgCore_def KeyborgCore_isDisposed_def Let_def AList.update_conv')
  show "\<exists>kc'. map_of (cores w) (core k) = Some kc' \<and> core_win kc' = Some win \<and>
             KeyborgCore_isDisposed kc'"
    if "reachable w" "keyborg (getWin w win) = Some k"
    using wf_window_Some(3) [OF wf_windowD [OF reachable_wf [OF that(1)]] that(2)]
    by (auto simp: KeyborgCore_isDisposed_def)
  show "\<exists>kc'. map_of (cores (KeyborgCore_dispose a w)) a = Some kc' \<and> core_win kc' = None \<and>
             \<not> KeyborgCore_isDisposed kc'"
    if "map_of (cores w) a = Some kc"
  proof (cases "core_win kc")
    case None
    with that show ?thesis by (simp add: KeyborgCore_dispose_def KeyborgCore_isDisposed_def)
  next
    case (Some win')
    from KeyborgCore_dispose_props [OF that Some] show ?thesis
      by (auto simp: KeyborgCore_isDisposed_def)
  qed
qed

theorem isDisposed_reports_window_witness:
  "reachable ex_one \<and> keyborg (getWin ex_one 0) = Some \<lparr>core = 2, refs = [(''k1'', 1)]\<rparr> \<and>
   (\<exists>kc'. map_of (cores ex_one) 2 = Some kc' \<and> core_win kc' = Some 0 \<and> KeyborgCore_isDisposed kc') \<and>
   (\<exists>kc'. map_of (cores (KeyborgCore_dispose 2 ex_one)) 2 = Some kc' \<and> core_win kc' = None \<and>
          \<not> KeyborgCore_isDisposed kc') \<and>
   (\<exists>kc'. map_of (cores (snd (new_KeyborgCore 0 None initWorld))) 1 = Some kc' \<and>
          core_win kc' = Some 0 \<and> KeyborgCore_isDisposed kc')"
proof -
  have k: "keyborg (getWin ex_one 0) = Some \<lparr>core = 2, refs = [(''k1'', 1)]\<rparr>"
    by (simp add: ex_one_def getWin_def)
  have c: "map_of (cores ex_one) 2 = Some \<lparr>core_id = ''c2'', core_win = Some 0, isMouseUsedTimer = None,
                    dismissTimer = None, core_triggerKeys = Some {9},
                    core_dismissKeys = Some {27}\<rparr>"
    by (simp add: ex_one_def)
  have n: "new_KeyborgCore 0 None initWorld = (1, snd (new_KeyborgCore 0 None initWorld))"
    by (simp add: new_KeyborgCore_def Let_def initWorld_def)
  from isDisposed_reports_window [of _ 0 None initWorld 1 "snd (new_KeyborgCore 0 None initWorld)"] n
  have a: "\<exists>kc'. map_of (cores (snd (new_KeyborgCore 0 None initWorld))) 1 = Some kc' \<and>
          core_win kc' = Some 0 \<and> KeyborgCore_isDisposed kc'"
    by blast
  from isDisposed_reports_window [of "\<lparr>core_id = ''c2'', core_win = Some 0, isMouseUsedTimer = None,
                    dismissTimer = None, core_triggerKeys = Some {9},
                    core_dismissKeys = Some {27}\<rparr>" 0 None ex_one 2 ex_one "\<lparr>core = 2, refs = [(''k1'', 1)]\<rparr>"]
    reachable_ex_one k c a
  show ?thesis by simp
qed

end
